theory Spec2Isabelle
  imports Complex_Main "HOL-Library.Multiset"
begin

section \<open>JavaScript values used by the load tester\<close>

text \<open>
  The load tester (\<^verbatim>\<open>class LoadTester\<close> of the custom Node.js tool) computes with
  JavaScript numbers. A number is modelled as an exact real, extended by the three
  non-finite values and by \<^verbatim>\<open>undefined\<close>, which is what reading past the end of an
  array yields. The sign of zero is not modelled, and the rounding of doubles is modelled
  where it decides a result, in the product that selects a scenario (see \<open>round_double\<close>).
  Arithmetic on \<^verbatim>\<open>undefined\<close> converts it to \<^verbatim>\<open>NaN\<close> first, as the language does.
\<close>

datatype jsval = Num real | PosInf | NegInf | NaN | Undefined

fun js_div :: "jsval \<Rightarrow> jsval \<Rightarrow> jsval" where
  "js_div (Num a) (Num b) =
     (if b \<noteq> 0 then Num (a / b)
      else if a = 0 then NaN
      else if 0 < a then PosInf else NegInf)"
| "js_div (Num a) PosInf = Num 0"
| "js_div (Num a) NegInf = Num 0"
| "js_div PosInf (Num b) = (if 0 \<le> b then PosInf else NegInf)"
| "js_div NegInf (Num b) = (if 0 \<le> b then NegInf else PosInf)"
| "js_div _ _ = NaN"

fun js_mul :: "jsval \<Rightarrow> jsval \<Rightarrow> jsval" where
  "js_mul (Num a) (Num b) = Num (a * b)"
| "js_mul (Num a) PosInf = (if a = 0 then NaN else if 0 < a then PosInf else NegInf)"
| "js_mul (Num a) NegInf = (if a = 0 then NaN else if 0 < a then NegInf else PosInf)"
| "js_mul PosInf (Num b) = (if b = 0 then NaN else if 0 < b then PosInf else NegInf)"
| "js_mul NegInf (Num b) = (if b = 0 then NaN else if 0 < b then NegInf else PosInf)"
| "js_mul PosInf PosInf = PosInf"
| "js_mul NegInf NegInf = PosInf"
| "js_mul PosInf NegInf = NegInf"
| "js_mul NegInf PosInf = NegInf"
| "js_mul _ _ = NaN"

fun js_add :: "jsval \<Rightarrow> jsval \<Rightarrow> jsval" where
  "js_add (Num a) (Num b) = Num (a + b)"
| "js_add (Num a) PosInf = PosInf"
| "js_add (Num a) NegInf = NegInf"
| "js_add PosInf (Num b) = PosInf"
| "js_add NegInf (Num b) = NegInf"
| "js_add PosInf PosInf = PosInf"
| "js_add NegInf NegInf = NegInf"
| "js_add _ _ = NaN"

text \<open>The comparison \<^verbatim>\<open>a >= b\<close>; it is false as soon as one side is not a number.\<close>

fun js_ge :: "jsval \<Rightarrow> jsval \<Rightarrow> bool" where
  "js_ge (Num a) (Num b) = (b \<le> a)"
| "js_ge (Num a) NegInf = True"
| "js_ge PosInf (Num b) = True"
| "js_ge PosInf PosInf = True"
| "js_ge PosInf NegInf = True"
| "js_ge NegInf NegInf = True"
| "js_ge _ _ = False"

text \<open>
  \<^verbatim>\<open>x || 0\<close> where \<^verbatim>\<open>x\<close> is a property that holds a finite number when it is present:
  an absent property (\<open>None\<close>) and the number 0 are falsy, every other number is kept.
\<close>

fun or_zero :: "real option \<Rightarrow> real" where
  "or_zero None = 0"
| "or_zero (Some t) = (if t = 0 then 0 else t)"

datatype json = JBool bool | JNum real | JStr string | JObj "(string \<times> json) list"

section \<open>Rounding to a double\<close>

text \<open>
  The product of two doubles is the exact product rounded to the nearest double, a tie
  going to the double with an even significand. \<open>binary_exponent x\<close> is the \<open>e\<close> with
  \<open>2 ^ e \<le> x < 2 ^ (e + 1)\<close> for a positive \<open>x\<close>; the doubles around \<open>x\<close> are the multiples
  of \<open>2 ^ (e - 52)\<close>, and below \<open>2 ^ (- 1022)\<close> the multiples of \<open>2 ^ (- 1074)\<close>. Overflow to
  \<^verbatim>\<open>Infinity\<close> is not modelled: \<open>round_double\<close> is applied to the product of a number below
  1 and the length of an array.
\<close>

definition round_half_even :: "real \<Rightarrow> int" where
  "round_half_even y =
     (let f = \<lfloor>y\<rfloor>; r = y - of_int f
      in if r < 1 / 2 then f else if 1 / 2 < r then f + 1 else if even f then f else f + 1)"

function exponent_up :: "real \<Rightarrow> int" where
  "exponent_up x = (if x < 2 then 0 else exponent_up (x / 2) + 1)"
  by pat_completeness auto
termination
proof (relation "measure (\<lambda>x. nat \<lfloor>x\<rfloor>)")
  show "wf (measure (\<lambda>x :: real. nat \<lfloor>x\<rfloor>))" by simp
next
  fix x :: real
  assume "\<not> x < 2"
  then have "x / 2 \<le> x - 1" by simp
  then have "\<lfloor>x / 2\<rfloor> \<le> \<lfloor>x - 1\<rfloor>" by (rule floor_mono)
  moreover have "0 < \<lfloor>x\<rfloor>" using \<open>\<not> x < 2\<close> by simp
  ultimately show "(x / 2, x) \<in> measure (\<lambda>x. nat \<lfloor>x\<rfloor>)" by simp
qed

function exponent_down :: "real \<Rightarrow> int" where
  "exponent_down x = (if 1 \<le> x \<or> x \<le> 0 then 0 else exponent_down (2 * x) - 1)"
  by pat_completeness auto
termination
proof (relation "measure (\<lambda>x. nat \<lceil>1 / x\<rceil>)")
  show "wf (measure (\<lambda>x :: real. nat \<lceil>1 / x\<rceil>))" by simp
next
  fix x :: real
  assume "\<not> (1 \<le> x \<or> x \<le> 0)"
  then have x: "0 < x" "x < 1" by simp_all
  then have y: "1 < 1 / x" by simp
  then have c: "2 \<le> \<lceil>1 / x\<rceil>" by linarith
  have "1 / (2 * x) = (1 / x) / 2" by simp
  also have "\<dots> \<le> of_int \<lceil>1 / x\<rceil> / 2" by (simp add: divide_right_mono)
  also have "\<dots> \<le> of_int (\<lceil>1 / x\<rceil> - 1)" using c by simp
  finally have "1 / (2 * x) \<le> of_int (\<lceil>1 / x\<rceil> - 1)" .
  then have "\<lceil>1 / (2 * x)\<rceil> \<le> \<lceil>1 / x\<rceil> - 1" by (rule ceiling_le)
  then have "nat \<lceil>1 / (2 * x)\<rceil> < nat \<lceil>1 / x\<rceil>" using c by linarith
  then show "(2 * x, x) \<in> measure (\<lambda>x. nat \<lceil>1 / x\<rceil>)" by (simp only: in_measure)
qed

declare exponent_up.simps [simp del] exponent_down.simps [simp del]

definition binary_exponent :: "real \<Rightarrow> int" where
  "binary_exponent x = (if 1 \<le> x then exponent_up x else exponent_down x)"

definition round_double :: "real \<Rightarrow> real" where
  "round_double x =
     (if x = 0 then 0
      else
        (let a = \<bar>x\<bar>;
             e = max (binary_exponent a) (- 1022);
             ulp = power_int 2 (e - 52)
         in sgn x * (ulp * of_int (round_half_even (a / ulp)))))"

section \<open>Configuration and tester state\<close>

record config =
  baseUrl :: string
  duration :: real
  warmupDuration :: real
  warmupTPS :: real
  timeout :: "real option"

text \<open>
  The argument of the constructor: each option may be absent. The object spread
  \<^verbatim>\<open>{...defaults, ...config}\<close> lets a present option replace the default.
\<close>

record config_options =
  opt_baseUrl :: "string option"
  opt_duration :: "real option"
  opt_warmupDuration :: "real option"
  opt_warmupTPS :: "real option"
  opt_timeout :: "real option"

record stats =
  avgResponseTime :: jsval
  minResponseTime :: jsval
  maxResponseTime :: jsval
  p50ResponseTime :: jsval
  p95ResponseTime :: jsval
  p99ResponseTime :: jsval

record PhaseResult = stats +
  testName :: string
  targetTPS :: real
  actualTPS :: jsval
  totalRequests :: nat
  resultErrorCount :: nat
  errorRate :: jsval

record LoadTester =
  config :: config
  results :: "PhaseResult list"
  isRunning :: bool
  requestCount :: nat
  errorCount :: nat
  responseTimes :: "real list"

definition new_LoadTester :: "config_options \<Rightarrow> LoadTester" where
  "new_LoadTester opts =
     \<lparr> config =
         \<lparr> baseUrl = (case opt_baseUrl opts of None \<Rightarrow> ''http://localhost:8080'' | Some u \<Rightarrow> u),
           duration = (case opt_duration opts of None \<Rightarrow> 60 | Some d \<Rightarrow> d),
           warmupDuration = (case opt_warmupDuration opts of None \<Rightarrow> 180 | Some d \<Rightarrow> d),
           warmupTPS = (case opt_warmupTPS opts of None \<Rightarrow> 1000 | Some r \<Rightarrow> r),
           timeout = opt_timeout opts \<rparr>,
       results = [],
       isRunning = False,
       requestCount = 0,
       errorCount = 0,
       responseTimes = [] \<rparr>"

section \<open>makeRequest\<close>

datatype http_method = GET | POST

text \<open>
  What the HTTP transport does with one request, that is, which of the handlers that
  \<^verbatim>\<open>makeRequest\<close> registers runs first:
  \<^item> \<open>ResponseEnd status elapsed body\<close>: the response's \<^verbatim>\<open>end\<close> event, with the status
    code, the difference of the two \<^verbatim>\<open>performance.now()\<close> readings and the body;
  \<^item> \<open>RequestError msg elapsed\<close>: the request's \<^verbatim>\<open>error\<close> event;
  \<^item> \<open>RequestTimeout\<close>: the request's \<^verbatim>\<open>timeout\<close> event;
  \<^item> \<open>ExecutorThrows msg\<close>: a statement of the promise executor throws (for example
    \<^verbatim>\<open>new URL\<close> on an invalid base URL), which rejects the promise with the thrown
    \<^verbatim>\<open>Error\<close>;
  \<^item> \<open>NeverSettles\<close>: none of the handlers ever runs.
\<close>

datatype transport =
    ResponseEnd int real string
  | RequestError string real
  | RequestTimeout
  | ExecutorThrows string
  | NeverSettles

record request_result =
  statusCode :: int
  responseTime :: real
  body :: string
  success :: bool

text \<open>
  The value a promise is rejected with: \<open>Failure msg t\<close> is the object
  \<^verbatim>\<open>{error: msg, responseTime: t, success: false}\<close>, \<open>Thrown msg\<close> is an \<^verbatim>\<open>Error\<close>
  object, which has no \<^verbatim>\<open>responseTime\<close> property.
\<close>

datatype rejection = Failure string real | Thrown string

fun rej_responseTime :: "rejection \<Rightarrow> real option" where
  "rej_responseTime (Failure msg t) = Some t"
| "rej_responseTime (Thrown msg) = None"

datatype ('a, 'e) promise = Fulfilled 'a | Rejected 'e | Pending

fun makeRequest ::
  "config \<Rightarrow> string \<Rightarrow> http_method \<Rightarrow> json option \<Rightarrow> transport
    \<Rightarrow> (request_result, rejection) promise" where
  "makeRequest cfg endpoint method payload (ResponseEnd status elapsed content) =
     Fulfilled \<lparr> statusCode = status, responseTime = elapsed, body = content,
                 success = (200 \<le> status \<and> status < 300) \<rparr>"
| "makeRequest cfg endpoint method payload (RequestError msg elapsed) =
     Rejected (Failure msg elapsed)"
| "makeRequest cfg endpoint method payload RequestTimeout =
     Rejected (Failure ''Request timeout''
       (case timeout cfg of None \<Rightarrow> 30000 | Some t \<Rightarrow> if t = 0 then 30000 else t))"
| "makeRequest cfg endpoint method payload (ExecutorThrows msg) = Rejected (Thrown msg)"
| "makeRequest cfg endpoint method payload NeverSettles = Pending"

section \<open>Scenarios and the weighted table\<close>

text \<open>The field \<open>method'\<close> is the property \<^verbatim>\<open>method\<close> of a scenario object.\<close>

record scenario =
  endpoint :: string
  method' :: http_method
  weight :: int
  data :: "json option"

text \<open>
  The scenario lists are literals of \<^verbatim>\<open>runWarmup\<close> and \<^verbatim>\<open>runTest\<close>; the argument is
  the value \<^verbatim>\<open>Math.random()\<close> returns while the literal is evaluated.
\<close>

definition warmupScenarios :: "real \<Rightarrow> scenario list" where
  "warmupScenarios r =
     [ \<lparr> endpoint = ''/health'', method' = GET, weight = 40, data = None \<rparr>,
       \<lparr> endpoint = ''/users/123'', method' = GET, weight = 30, data = None \<rparr>,
       \<lparr> endpoint = ''/echo'', method' = POST, weight = 20,
         data = Some (JObj [(''warmup'', JBool True), (''id'', JNum r)]) \<rparr>,
       \<lparr> endpoint = ''/stats'', method' = GET, weight = 10, data = None \<rparr> ]"

definition scenarios :: "real \<Rightarrow> scenario list" where
  "scenarios r =
     [ \<lparr> endpoint = ''/health'', method' = GET, weight = 30, data = None \<rparr>,
       \<lparr> endpoint = ''/users/123'', method' = GET, weight = 25, data = None \<rparr>,
       \<lparr> endpoint = ''/echo'', method' = POST, weight = 25,
         data = Some (JObj [(''test'', JStr ''load-test''), (''id'', JNum r)]) \<rparr>,
       \<lparr> endpoint = ''/compute'', method' = GET, weight = 15, data = None \<rparr>,
       \<lparr> endpoint = ''/stats'', method' = GET, weight = 5, data = None \<rparr> ]"

text \<open>The inner loop \<^verbatim>\<open>for (let i = 0; i < scenario.weight; i++) push(scenario)\<close>.\<close>

function pushCopies :: "scenario \<Rightarrow> int \<Rightarrow> scenario list \<Rightarrow> scenario list" where
  "pushCopies sc i acc = (if i < weight sc then pushCopies sc (i + 1) (acc @ [sc]) else acc)"
  by pat_completeness auto
termination
  by (relation "measure (\<lambda>(sc, i, acc). nat (weight sc - i))") auto

text \<open>The outer \<^verbatim>\<open>forEach\<close> over the scenario list, starting from the empty array.\<close>

definition weightedScenarios :: "scenario list \<Rightarrow> scenario list" where
  "weightedScenarios scs = foldl (\<lambda>acc sc. pushCopies sc 0 acc) [] scs"

text \<open>
  \<^verbatim>\<open>Math.floor(Math.random() * weightedScenarios.length)\<close> for the draw \<open>u\<close>, the product
  being the double nearest to the exact product, and the array read at that index, which
  is \<^verbatim>\<open>undefined\<close> (here \<open>None\<close>) outside the array.
\<close>

definition selectIndex :: "scenario list \<Rightarrow> real \<Rightarrow> int" where
  "selectIndex table u = \<lfloor>round_double (u * real (length table))\<rfloor>"

definition selectScenario :: "scenario list \<Rightarrow> real \<Rightarrow> scenario option" where
  "selectScenario table u =
     (let i = selectIndex table u
      in if 0 \<le> i \<and> i < int (length table) then Some (table ! nat i) else None)"

section \<open>The pacing loops\<close>

text \<open>
  One iteration of a pacing loop reads the clock in the loop condition and again in the
  body, and then waits one millisecond. What the environment supplies to an iteration:
  the two readings of \<^verbatim>\<open>Date.now()\<close>, the value of \<^verbatim>\<open>Math.random()\<close> and the behaviour
  of the transport for the request (both used only when the iteration dispatches one),
  and whether \<^verbatim>\<open>stop()\<close> is called while the iteration waits.
\<close>

record tick =
  now_cond :: real
  now_body :: real
  random_draw :: real
  transport_event :: transport
  stop_called :: bool

text \<open>
  Why a call does not return a result: the clock trace that was supplied ends while the
  loop is still running, the join \<^verbatim>\<open>Promise.all\<close> waits for a promise that never settles,
  or a property of \<^verbatim>\<open>undefined\<close> is read.
\<close>

datatype run_error = TraceEnded | JoinPending | TypeError

type_synonym request_promise = "(request_result, rejection) promise"

text \<open>
  The loop of \<^verbatim>\<open>runTest\<close>. It returns the value of \<^verbatim>\<open>isRunning\<close> at exit and the array
  \<^verbatim>\<open>requestPromises\<close>, each promise given by the state it finally reaches.
\<close>

fun testLoop ::
  "config \<Rightarrow> real \<Rightarrow> jsval \<Rightarrow> scenario list \<Rightarrow> jsval \<Rightarrow> bool \<Rightarrow> tick list
    \<Rightarrow> request_promise list \<Rightarrow> run_error + (bool \<times> request_promise list)" where
  "testLoop cfg endTime interval table nextRequestTime running [] requestPromises =
     Inl TraceEnded"
| "testLoop cfg endTime interval table nextRequestTime running (t # ts) requestPromises =
     (if now_cond t < endTime \<and> running then
        (if js_ge (Num (now_body t)) nextRequestTime then
           (case selectScenario table (random_draw t) of
              None \<Rightarrow> Inl TypeError
            | Some sc \<Rightarrow>
                testLoop cfg endTime interval table (js_add nextRequestTime interval)
                  (running \<and> \<not> stop_called t) ts
                  (requestPromises @
                     [makeRequest cfg (endpoint sc) (method' sc) (data sc) (transport_event t)]))
         else
           testLoop cfg endTime interval table nextRequestTime
             (running \<and> \<not> stop_called t) ts requestPromises)
      else Inr (running, requestPromises))"

text \<open>The loop of \<^verbatim>\<open>runWarmup\<close>, which does not look at \<^verbatim>\<open>isRunning\<close>.\<close>

fun warmupLoop ::
  "config \<Rightarrow> real \<Rightarrow> jsval \<Rightarrow> scenario list \<Rightarrow> jsval \<Rightarrow> tick list
    \<Rightarrow> request_promise list \<Rightarrow> run_error + request_promise list" where
  "warmupLoop cfg endTime interval table nextRequestTime [] requestPromises = Inl TraceEnded"
| "warmupLoop cfg endTime interval table nextRequestTime (t # ts) requestPromises =
     (if now_cond t < endTime then
        (if js_ge (Num (now_body t)) nextRequestTime then
           (case selectScenario table (random_draw t) of
              None \<Rightarrow> Inl TypeError
            | Some sc \<Rightarrow>
                warmupLoop cfg endTime interval table (js_add nextRequestTime interval) ts
                  (requestPromises @
                     [makeRequest cfg (endpoint sc) (method' sc) (data sc) (transport_event t)]))
         else warmupLoop cfg endTime interval table nextRequestTime ts requestPromises)
      else Inr requestPromises)"

section \<open>Settlement of the dispatched requests\<close>

text \<open>
  The callbacks that \<^verbatim>\<open>runTest\<close> chains to a request with \<^verbatim>\<open>.then(...).catch(...)\<close>,
  run when the request settles. The chained promise is fulfilled in both cases; it stays
  pending, and so does the join, when the request never settles.
\<close>

fun onSettled :: "LoadTester \<Rightarrow> request_promise \<Rightarrow> run_error + LoadTester" where
  "onSettled st (Fulfilled result) =
     (let st1 = st\<lparr>requestCount := requestCount st + 1\<rparr>;
          st2 = st1\<lparr>responseTimes := responseTimes st1 @ [responseTime result]\<rparr>
      in Inr (if \<not> success result then st2\<lparr>errorCount := errorCount st2 + 1\<rparr> else st2))"
| "onSettled st (Rejected err) =
     (let st1 = st\<lparr>requestCount := requestCount st + 1\<rparr>;
          st2 = st1\<lparr>errorCount := errorCount st1 + 1\<rparr>
      in Inr (st2\<lparr>responseTimes := responseTimes st2 @ [or_zero (rej_responseTime err)]\<rparr>))"
| "onSettled st Pending = Inl JoinPending"

fun settleAll :: "LoadTester \<Rightarrow> request_promise list \<Rightarrow> run_error + LoadTester" where
  "settleAll st [] = Inr st"
| "settleAll st (p # ps) =
     (case onSettled st p of Inl e \<Rightarrow> Inl e | Inr st' \<Rightarrow> settleAll st' ps)"

text \<open>
  The callbacks of \<^verbatim>\<open>runWarmup\<close> count in the local variables
  \<^verbatim>\<open>warmupRequestCount\<close> and \<^verbatim>\<open>warmupErrorCount\<close>, here a pair.
\<close>

fun onWarmupSettled :: "nat \<times> nat \<Rightarrow> request_promise \<Rightarrow> run_error + nat \<times> nat" where
  "onWarmupSettled (warmupRequestCount, warmupErrorCount) (Fulfilled result) =
     Inr (warmupRequestCount + 1,
          if \<not> success result then warmupErrorCount + 1 else warmupErrorCount)"
| "onWarmupSettled (warmupRequestCount, warmupErrorCount) (Rejected err) =
     Inr (warmupRequestCount + 1, warmupErrorCount + 1)"
| "onWarmupSettled (warmupRequestCount, warmupErrorCount) Pending = Inl JoinPending"

fun settleAllWarmup :: "nat \<times> nat \<Rightarrow> request_promise list \<Rightarrow> run_error + nat \<times> nat" where
  "settleAllWarmup c [] = Inr c"
| "settleAllWarmup c (p # ps) =
     (case onWarmupSettled c p of Inl e \<Rightarrow> Inl e | Inr c' \<Rightarrow> settleAllWarmup c' ps)"

text \<open>
  Requests settle in an order of their own. The environment gives it as the list of the
  positions in \<^verbatim>\<open>requestPromises\<close>, in the order in which the callbacks run; the join
  completes only when every position occurs in it (once). The callbacks run while the
  loop waits or while the join waits; the loops do not read what the callbacks write
  (but for a progress message of the warmup), so the model runs them after the loop.
\<close>

definition inCompletionOrder :: "nat list \<Rightarrow> 'a list \<Rightarrow> run_error + 'a list" where
  "inCompletionOrder order ps =
     (if sort order = [0..<length ps] then Inr (map (\<lambda>i. ps ! i) order) else Inl JoinPending)"

section \<open>Statistics\<close>

text \<open>An array read \<^verbatim>\<open>a[i]\<close> for an integer index: \<^verbatim>\<open>undefined\<close> outside the array.\<close>

definition js_nth :: "real list \<Rightarrow> int \<Rightarrow> jsval" where
  "js_nth a i = (if 0 \<le> i \<and> i < int (length a) then Num (a ! nat i) else Undefined)"

definition percentile :: "LoadTester \<Rightarrow> real \<Rightarrow> jsval" where
  "percentile st p =
     (let index = \<lceil>(p / 100) * real (length (responseTimes st))\<rceil> - 1
      in js_nth (responseTimes st) (max 0 (min index (int (length (responseTimes st)) - 1))))"

definition calculateStats :: "LoadTester \<Rightarrow> stats" where
  "calculateStats st =
     (if length (responseTimes st) = 0 then
        \<lparr> avgResponseTime = Num 0, minResponseTime = Num 0, maxResponseTime = Num 0,
          p50ResponseTime = Num 0, p95ResponseTime = Num 0, p99ResponseTime = Num 0 \<rparr>
      else
        (let sum = foldl (\<lambda>a b. a + b) 0 (responseTimes st);
             avg = js_div (Num sum) (Num (real (length (responseTimes st))))
         in \<lparr> avgResponseTime = avg,
              minResponseTime = js_nth (responseTimes st) 0,
              maxResponseTime = js_nth (responseTimes st) (int (length (responseTimes st)) - 1),
              p50ResponseTime = percentile st 50,
              p95ResponseTime = percentile st 95,
              p99ResponseTime = percentile st 99 \<rparr>))"

section \<open>runTest, runWarmup and runFullBenchmark\<close>

text \<open>
  What the environment supplies to one phase: the first reading of \<^verbatim>\<open>Date.now()\<close>, the
  \<^verbatim>\<open>Math.random()\<close> of the scenario literal, the iterations of the pacing loop and the
  order in which the dispatched requests settle.
\<close>

record phase_env =
  startTime :: real
  payload_id :: real
  ticks :: "tick list"
  completion :: "nat list"

text \<open>
  The first part of \<^verbatim>\<open>runTest\<close>: the interval, the end time, the weighted table and
  the pacing loop. The result is \<^verbatim>\<open>isRunning\<close> and the array \<^verbatim>\<open>requestPromises\<close> when
  the loop exits. Of the tester it reads the configuration only.
\<close>

definition requestPromises ::
  "config \<Rightarrow> real \<Rightarrow> phase_env \<Rightarrow> run_error + (bool \<times> request_promise list)" where
  "requestPromises cfg tps env =
     (let interval = js_div (Num 1000) (Num tps);
          endTime = startTime env + duration cfg * 1000;
          table = weightedScenarios (scenarios (payload_id env))
      in testLoop cfg endTime interval table (Num (startTime env)) True (ticks env) [])"

definition runTest ::
  "LoadTester \<Rightarrow> real \<Rightarrow> string \<Rightarrow> phase_env \<Rightarrow> run_error + (LoadTester \<times> PhaseResult)" where
  "runTest st tps name env =
     (let st0 = st\<lparr>requestCount := 0, errorCount := 0, responseTimes := [], isRunning := True\<rparr>
      in case requestPromises (config st0) tps env of
           Inl e \<Rightarrow> Inl e
         | Inr (running, promises) \<Rightarrow>
             (case inCompletionOrder (completion env) promises of
                Inl e \<Rightarrow> Inl e
              | Inr settled \<Rightarrow>
                  (case settleAll (st0\<lparr>isRunning := running\<rparr>) settled of
                     Inl e \<Rightarrow> Inl e
                   | Inr st1 \<Rightarrow>
                       (let st2 = st1\<lparr>responseTimes := sort (responseTimes st1)\<rparr>;
                            s = calculateStats st2;
                            result =
                              \<lparr> avgResponseTime = avgResponseTime s,
                                minResponseTime = minResponseTime s,
                                maxResponseTime = maxResponseTime s,
                                p50ResponseTime = p50ResponseTime s,
                                p95ResponseTime = p95ResponseTime s,
                                p99ResponseTime = p99ResponseTime s,
                                testName = name,
                                targetTPS = tps,
                                actualTPS =
                                  js_div (Num (real (requestCount st2)))
                                    (Num (duration (config st2))),
                                totalRequests = requestCount st2,
                                resultErrorCount = errorCount st2,
                                errorRate =
                                  js_mul
                                    (js_div (Num (real (errorCount st2)))
                                       (Num (real (requestCount st2))))
                                    (Num 100) \<rparr>
                        in Inr (st2\<lparr>results := results st2 @ [result]\<rparr>, result)))))"

text \<open>
  \<^verbatim>\<open>runWarmup\<close> only writes to the console; the record is what its closing messages
  report. It leaves the tester as it found it.
\<close>

record warmup_report =
  warmupTotal :: nat
  actualWarmupTPS :: jsval
  warmupErrorRate :: jsval

text \<open>
  The first part of \<^verbatim>\<open>runWarmup\<close>, up to the end of its loop: the array
  \<^verbatim>\<open>requestPromises\<close> of the warmup.
\<close>

definition warmupPromises :: "config \<Rightarrow> phase_env \<Rightarrow> run_error + request_promise list" where
  "warmupPromises cfg env =
     (let interval = js_div (Num 1000) (Num (warmupTPS cfg));
          endTime = startTime env + warmupDuration cfg * 1000;
          table = weightedScenarios (warmupScenarios (payload_id env))
      in warmupLoop cfg endTime interval table (Num (startTime env)) (ticks env) [])"

definition runWarmup :: "LoadTester \<Rightarrow> phase_env \<Rightarrow> run_error + (LoadTester \<times> warmup_report)" where
  "runWarmup st env =
     (case warmupPromises (config st) env of
        Inl e \<Rightarrow> Inl e
      | Inr promises \<Rightarrow>
          (case inCompletionOrder (completion env) promises of
             Inl e \<Rightarrow> Inl e
           | Inr settled \<Rightarrow>
               (case settleAllWarmup (0, 0) settled of
                  Inl e \<Rightarrow> Inl e
                | Inr (warmupRequestCount, warmupErrorCount) \<Rightarrow>
                    Inr (st,
                         \<lparr> warmupTotal = warmupRequestCount,
                           actualWarmupTPS =
                             js_div (Num (real warmupRequestCount))
                               (Num (warmupDuration (config st))),
                           warmupErrorRate =
                             js_mul
                               (js_div (Num (real warmupErrorCount))
                                  (Num (real warmupRequestCount)))
                               (Num 100) \<rparr>))))"

definition tpsLevels :: "nat list" where
  "tpsLevels = [5, 10, 15, 30, 40, 100, 1000]"

text \<open>The decimal numeral of a natural number, for the template \<^verbatim>\<open>`${tps}TPS`\<close>.\<close>

definition digit_char :: "nat \<Rightarrow> char" where
  "digit_char d = ''0123456789'' ! d"

function show_nat :: "nat \<Rightarrow> string" where
  "show_nat n = (if n < 10 then [digit_char n] else show_nat (n div 10) @ [digit_char (n mod 10)])"
  by pat_completeness auto
termination
  by (relation "measure (\<lambda>n. n)") auto

text \<open>
  The loop \<^verbatim>\<open>for (const tps of tpsLevels)\<close>; phase \<open>i\<close> of the sweep gets the
  environment \<open>envs i\<close>. The pause between two phases changes nothing in the tester.
\<close>

fun sweep :: "LoadTester \<Rightarrow> nat list \<Rightarrow> nat \<Rightarrow> (nat \<Rightarrow> phase_env) \<Rightarrow> run_error + LoadTester" where
  "sweep st [] i envs = Inr st"
| "sweep st (tps # rest) i envs =
     (case runTest st (real tps) (show_nat tps @ ''TPS'') (envs i) of
        Inl e \<Rightarrow> Inl e
      | Inr (st', result) \<Rightarrow> sweep st' rest (Suc i) envs)"

definition runFullBenchmark ::
  "LoadTester \<Rightarrow> string \<Rightarrow> phase_env \<Rightarrow> (nat \<Rightarrow> phase_env)
    \<Rightarrow> run_error + (LoadTester \<times> PhaseResult list)" where
  "runFullBenchmark st url warmup_env envs =
     (let st0 = st\<lparr>config := (config st)\<lparr>baseUrl := url\<rparr>\<rparr>
      in case runWarmup st0 warmup_env of
           Inl e \<Rightarrow> Inl e
         | Inr (st1, report) \<Rightarrow>
             (case sweep st1 tpsLevels 0 envs of
                Inl e \<Rightarrow> Inl e
              | Inr st2 \<Rightarrow> Inr (st2, results st2)))"

section \<open>Notions of the specification\<close>

text \<open>
  The specification speaks of the outcome of a request: it succeeded when its promise is
  fulfilled with \<^verbatim>\<open>success: true\<close>; it failed when the promise is fulfilled with
  \<^verbatim>\<open>success: false\<close> or rejected. \<open>recordedTime\<close> is the response time that the
  callbacks of \<^verbatim>\<open>runTest\<close> push for a settled request.
\<close>

fun succeeded :: "request_promise \<Rightarrow> bool" where
  "succeeded (Fulfilled result) = success result"
| "succeeded (Rejected err) = False"
| "succeeded Pending = False"

fun failed :: "request_promise \<Rightarrow> bool" where
  "failed (Fulfilled result) = (\<not> success result)"
| "failed (Rejected err) = True"
| "failed Pending = False"

fun recordedTime :: "request_promise \<Rightarrow> real" where
  "recordedTime (Fulfilled result) = responseTime result"
| "recordedTime (Rejected err) = or_zero (rej_responseTime err)"
| "recordedTime Pending = 0"

text \<open>A tester as the command line creates it, and one whose phases last no time.\<close>

definition cli_options :: config_options where
  "cli_options =
     \<lparr> opt_baseUrl = None, opt_duration = Some 60, opt_warmupDuration = Some 180,
       opt_warmupTPS = Some 1000, opt_timeout = None \<rparr>"

definition zero_duration_options :: config_options where
  "zero_duration_options =
     \<lparr> opt_baseUrl = None, opt_duration = Some 0, opt_warmupDuration = Some 0,
       opt_warmupTPS = Some 1000, opt_timeout = None \<rparr>"

text \<open>
  A phase of no duration: the loop condition fails at once, nothing is dispatched.
\<close>

definition idle_env :: phase_env where
  "idle_env =
     \<lparr> startTime = 1000, payload_id = 1 / 2,
       ticks = [\<lparr> now_cond = 1000, now_body = 1000, random_draw = 0,
                  transport_event = NeverSettles, stop_called = False \<rparr>],
       completion = [] \<rparr>"

text \<open>
  A phase in which the clock has gone past the end of the phase (of sixty seconds, or of
  the three minutes of the warmup) when the loop first looks at it.
\<close>

definition late_env :: phase_env where
  "late_env =
     \<lparr> startTime = 1000, payload_id = 1 / 2,
       ticks = [\<lparr> now_cond = 200000, now_body = 200000, random_draw = 0,
                  transport_event = NeverSettles, stop_called = False \<rparr>],
       completion = [] \<rparr>"

text \<open>
  Phases of sixty seconds in which two requests are dispatched, and the second request
  settles first: the first pass through the loop dispatches, the second pass falls into
  the same millisecond and does not, the third pass at 1201 dispatches for every rate
  from 5 requests per second (an interval of 200 ms) upwards, and the fourth pass finds
  the phase over. The environment is given by what the transport does with the two
  requests.
\<close>

definition two_request_env :: "transport \<Rightarrow> transport \<Rightarrow> phase_env" where
  "two_request_env first second =
     \<lparr> startTime = 1000, payload_id = 1 / 2,
       ticks = [\<lparr> now_cond = 1000, now_body = 1000, random_draw = 1 / 8,
                  transport_event = first, stop_called = False \<rparr>,
                \<lparr> now_cond = 1000, now_body = 1000, random_draw = 1 / 4,
                  transport_event = NeverSettles, stop_called = False \<rparr>,
                \<lparr> now_cond = 1200, now_body = 1201, random_draw = 3 / 4,
                  transport_event = second, stop_called = False \<rparr>,
                \<lparr> now_cond = 61000, now_body = 61000, random_draw = 0,
                  transport_event = NeverSettles, stop_called = False \<rparr>],
       completion = [1, 0] \<rparr>"

text \<open>
  A warmup of three minutes at 1000 requests per second (an interval of 1 ms) in which two
  requests are dispatched, at 1000 and at 1002, the second settling first, before the
  clock is found past the end of the warmup.
\<close>

definition two_request_warmup_env :: "transport \<Rightarrow> transport \<Rightarrow> phase_env" where
  "two_request_warmup_env first second =
     \<lparr> startTime = 1000, payload_id = 1 / 2,
       ticks = [\<lparr> now_cond = 1000, now_body = 1000, random_draw = 1 / 8,
                  transport_event = first, stop_called = False \<rparr>,
                \<lparr> now_cond = 1000, now_body = 1000, random_draw = 1 / 4,
                  transport_event = NeverSettles, stop_called = False \<rparr>,
                \<lparr> now_cond = 1002, now_body = 1002, random_draw = 3 / 4,
                  transport_event = second, stop_called = False \<rparr>,
                \<lparr> now_cond = 181000, now_body = 181000, random_draw = 0,
                  transport_event = NeverSettles, stop_called = False \<rparr>],
       completion = [1, 0] \<rparr>"

section \<open>Auxiliary facts\<close>

lemma makeRequest_args: "makeRequest cfg a b c ev = makeRequest cfg a' b' c' ev"
  by (cases ev) simp_all

declare pushCopies.simps [simp del] show_nat.simps [simp del]

lemma pushCopies_eq: "pushCopies sc i acc = acc @ replicate (nat (weight sc - i)) sc"
proof (induction sc i acc rule: pushCopies.induct)
  case (1 sc i acc)
  show ?case
  proof (cases "i < weight sc")
    case True
    then have n: "nat (weight sc - i) = Suc (nat (weight sc - (i + 1)))" by simp
    have "pushCopies sc i acc = pushCopies sc (i + 1) (acc @ [sc])"
      using True by (subst pushCopies.simps) simp
    also have "\<dots> = (acc @ [sc]) @ replicate (nat (weight sc - (i + 1))) sc"
      using 1 True by simp
    finally show ?thesis unfolding n by simp
  next
    case False
    then show ?thesis by (subst pushCopies.simps) simp
  qed
qed

lemma foldl_pushCopies:
  "foldl (\<lambda>acc sc. pushCopies sc 0 acc) acc scs =
     acc @ concat (map (\<lambda>sc. replicate (nat (weight sc)) sc) scs)"
  by (induction scs arbitrary: acc) (simp_all add: pushCopies_eq)

lemma weightedScenarios_concat:
  "weightedScenarios scs = concat (map (\<lambda>sc. replicate (nat (weight sc)) sc) scs)"
  by (simp add: weightedScenarios_def foldl_pushCopies)

lemma onSettled_closed:
  "onSettled st p =
     (if p = Pending then Inl JoinPending
      else Inr (st\<lparr>requestCount := requestCount st + 1,
                   errorCount := errorCount st + (if failed p then 1 else 0),
                   responseTimes := responseTimes st @ [recordedTime p]\<rparr>))"
  by (cases p) (simp_all add: Let_def)

lemma settleAll_closed:
  "settleAll st ps =
     (if Pending \<in> set ps then Inl JoinPending
      else Inr (st\<lparr>requestCount := requestCount st + length ps,
                   errorCount := errorCount st + length (filter failed ps),
                   responseTimes := responseTimes st @ map recordedTime ps\<rparr>))"
proof (induction ps arbitrary: st)
  case Nil
  show ?case by simp
next
  case (Cons p ps)
  show ?case
  proof (cases "p = Pending")
    case True
    then show ?thesis by simp
  next
    case False
    then show ?thesis
      by (simp add: onSettled_closed Cons)
  qed
qed

lemma mset_inCompletionOrder:
  assumes "sort order = [0..<length ps]"
  shows "mset (map (\<lambda>i. ps ! i) order) = mset ps"
proof -
  have "mset order = mset [0..<length ps]"
    using assms mset_sort [of "\<lambda>x. x" order] by simp
  then have "image_mset (\<lambda>i. ps ! i) (mset order) = image_mset (\<lambda>i. ps ! i) (mset [0..<length ps])"
    by simp
  then have "mset (map (\<lambda>i. ps ! i) order) = mset (map (\<lambda>i. ps ! i) [0..<length ps])"
    by simp
  then show ?thesis by (simp add: map_nth)
qed

lemma sort_cong_mset: "mset xs = mset ys \<Longrightarrow> sort xs = sort (ys :: real list)"
  by (rule properties_for_sort) simp_all

lemma length_filter_mset: "mset xs = mset ys \<Longrightarrow> length (filter P xs) = length (filter P ys)"
proof -
  assume "mset xs = mset ys"
  then have "filter_mset P (mset xs) = filter_mset P (mset ys)" by (rule arg_cong)
  then have "mset (filter P xs) = mset (filter P ys)" by (simp only: mset_filter)
  then show ?thesis by (rule mset_eq_length)
qed

lemma completion_facts:
  assumes "sort order = [0..<length ps]"
  shows "set (map (\<lambda>i. ps ! i) order) = set ps"
    and "length (map (\<lambda>i. ps ! i) order) = length ps"
    and "length (filter P (map (\<lambda>i. ps ! i) order)) = length (filter P ps)"
    and "sort (map recordedTime (map (\<lambda>i. ps ! i) order)) = sort (map recordedTime ps)"
proof -
  note m = mset_inCompletionOrder [OF assms]
  show "set (map (\<lambda>i. ps ! i) order) = set ps" using m by (rule mset_eq_setD)
  show "length (map (\<lambda>i. ps ! i) order) = length ps" using m by (rule mset_eq_length)
  show "length (filter P (map (\<lambda>i. ps ! i) order)) = length (filter P ps)"
    using m by (rule length_filter_mset)
  have "mset (map recordedTime (map (\<lambda>i. ps ! i) order)) = mset (map recordedTime ps)"
    using m by (metis mset_map)
  then show "sort (map recordedTime (map (\<lambda>i. ps ! i) order)) = sort (map recordedTime ps)"
    by (rule sort_cong_mset)
qed

lemma calculateStats_cong:
  "responseTimes st = responseTimes st' \<Longrightarrow> calculateStats st = calculateStats st'"
  by (simp add: calculateStats_def percentile_def)

lemma runTest_unfold:
  "runTest st tps name env =
     (case requestPromises (config st) tps env of
        Inl e \<Rightarrow> Inl e
      | Inr (run, ps) \<Rightarrow>
          if sort (completion env) = [0..<length ps] \<and> Pending \<notin> set ps then
            (let st' = st\<lparr>isRunning := run, requestCount := length ps,
                          errorCount := length (filter failed ps),
                          responseTimes := sort (map recordedTime ps)\<rparr>;
                 s = calculateStats st';
                 r = \<lparr> avgResponseTime = avgResponseTime s,
                       minResponseTime = minResponseTime s,
                       maxResponseTime = maxResponseTime s,
                       p50ResponseTime = p50ResponseTime s,
                       p95ResponseTime = p95ResponseTime s,
                       p99ResponseTime = p99ResponseTime s,
                       testName = name,
                       targetTPS = tps,
                       actualTPS = js_div (Num (real (length ps))) (Num (duration (config st))),
                       totalRequests = length ps,
                       resultErrorCount = length (filter failed ps),
                       errorRate =
                         js_mul (js_div (Num (real (length (filter failed ps))))
                                   (Num (real (length ps)))) (Num 100) \<rparr>
             in Inr (st'\<lparr>results := results st @ [r]\<rparr>, r))
          else Inl JoinPending)"
proof (cases "requestPromises (config st) tps env")
  case (Inl e)
  then show ?thesis by (simp add: runTest_def)
next
  case (Inr rp)
  obtain run ps where rp: "rp = (run, ps)" by (cases rp)
  show ?thesis
  proof (cases "sort (completion env) = [0..<length ps]")
    case False
    then show ?thesis using Inr rp by (simp add: runTest_def inCompletionOrder_def)
  next
    case True
    note f = completion_facts [OF True]
    have cs: "\<And>a b. responseTimes a = responseTimes b \<Longrightarrow> calculateStats a = calculateStats b"
      by (rule calculateStats_cong)
    show ?thesis
    proof (cases "Pending \<in> set ps")
      case True
      then show ?thesis using Inr rp \<open>sort (completion env) = [0..<length ps]\<close> f(1)
        by (simp add: runTest_def inCompletionOrder_def settleAll_closed)
    next
      case False
      then show ?thesis using Inr rp True f
        by (simp add: runTest_def inCompletionOrder_def settleAll_closed Let_def
              cong: calculateStats_cong)
    qed
  qed
qed

lemma js_nth_last: "a \<noteq> [] \<Longrightarrow> js_nth a (int (length a) - 1) = Num (last a)"
proof -
  assume ne: "a \<noteq> []"
  then have "0 < length a" by simp
  then have "nat (int (length a) - 1) = length a - 1" by simp
  then show ?thesis using ne by (simp add: js_nth_def last_conv_nth)
qed

lemma percentile_100: 
  assumes "responseTimes st \<noteq> []"
  shows "percentile st 100 = Num (last (responseTimes st))"
proof -
  let ?n = "int (length (responseTimes st))"
  have idx: "\<lceil>(100 / 100) * real (length (responseTimes st))\<rceil> - 1 = ?n - 1"
    by simp
  have pos: "1 \<le> ?n" using assms by (cases "responseTimes st") simp_all
  then have "max 0 (min (?n - 1) (?n - 1)) = ?n - 1" by simp
  then have "percentile st 100 = js_nth (responseTimes st) (?n - 1)"
    unfolding percentile_def Let_def idx by simp
  then show ?thesis using assms by (simp add: js_nth_last)
qed

lemma sorted_last_Max: 
  fixes xs :: "real list"
  assumes "xs \<noteq> []" "sorted xs"
  shows "last xs = Max (set xs)"
proof -
  have "\<forall>y\<in>set xs. y \<le> last xs"
  proof
    fix y assume "y \<in> set xs"
    then obtain i where i: "i < length xs" "xs ! i = y" by (auto simp: in_set_conv_nth)
    then have "xs ! i \<le> xs ! (length xs - 1)"
      using assms(2) by (intro sorted_nth_mono) auto
    then show "y \<le> last xs" using i assms(1) by (simp add: last_conv_nth)
  qed
  moreover have "last xs \<in> set xs" using assms(1) by simp
  ultimately show ?thesis by (intro Max_eqI [symmetric]) auto
qed

lemma percentile_singleton: "percentile (st\<lparr>responseTimes := [x]\<rparr>) p = Num x"
  by (simp add: percentile_def js_nth_def Let_def)

lemma count_list_replicate: "count_list (replicate n y) x = (if x = y then n else 0)"
  by (induction n) auto

lemma length_weightedScenarios:
  "length (weightedScenarios scs) = sum_list (map (\<lambda>sc. nat (weight sc)) scs)"
  by (simp add: weightedScenarios_concat length_concat comp_def)

lemma sum_list_nat_weight:
  "\<forall>sc\<in>set scs. 0 < weight sc \<Longrightarrow>
     int (sum_list (map (\<lambda>sc. nat (weight sc)) scs)) = sum_list (map weight scs)"
  by (induction scs) simp_all

lemma count_weightedScenarios:
  "distinct scs \<Longrightarrow>
     count_list (weightedScenarios scs) sc = (if sc \<in> set scs then nat (weight sc) else 0)"
  unfolding weightedScenarios_concat
  by (induction scs) (auto simp: count_list_replicate)

lemma weightedScenarios_nonempty:
  assumes "scs \<noteq> []" "\<forall>sc\<in>set scs. 0 < weight sc"
  shows "weightedScenarios scs \<noteq> []"
proof -
  obtain sc rest where "scs = sc # rest" using assms(1) by (cases scs) auto
  then have "0 < weight sc" using assms(2) by simp
  then have "replicate (nat (weight sc)) sc \<noteq> []" by simp
  then show ?thesis using \<open>scs = sc # rest\<close> by (simp add: weightedScenarios_concat)
qed

lemma exponent_up_bounds:
  "1 \<le> x \<Longrightarrow> 0 \<le> exponent_up x \<and> power_int 2 (exponent_up x) \<le> x
     \<and> x < power_int 2 (exponent_up x + 1)"
proof (induction x rule: exponent_up.induct)
  case (1 x)
  show ?case
  proof (cases "x < 2")
    case True
    then have "exponent_up x = 0" by (subst exponent_up.simps) simp
    then show ?thesis using True 1(2) by simp
  next
    case False
    then have e: "exponent_up x = exponent_up (x / 2) + 1" by (subst exponent_up.simps) simp
    have "1 \<le> x / 2" using False by simp
    from 1(1) [OF False this]
    have ih: "0 \<le> exponent_up (x / 2)" "power_int 2 (exponent_up (x / 2)) \<le> x / 2"
      "x / 2 < power_int 2 (exponent_up (x / 2) + 1)" by simp_all
    have s: "power_int (2 :: real) (k + 1) = 2 * power_int 2 k" for k
      by (simp add: power_int_add)
    show ?thesis using ih unfolding e s by simp
  qed
qed

lemma exponent_down_bounds:
  "0 < x \<Longrightarrow> x < 1 \<Longrightarrow> power_int 2 (exponent_down x) \<le> x
     \<and> x < power_int 2 (exponent_down x + 1)"
proof (induction x rule: exponent_down.induct)
  case (1 x)
  have nb: "\<not> (1 \<le> x \<or> x \<le> 0)" using 1(2,3) by simp
  then have e: "exponent_down x = exponent_down (2 * x) - 1" by (subst exponent_down.simps) simp
  have s: "power_int (2 :: real) (k + 1) = 2 * power_int 2 k" for k
    by (simp add: power_int_add)
  have s': "power_int (2 :: real) (k - 1) = power_int 2 k / 2" for k
    by (simp add: power_int_diff)
  show ?case
  proof (cases "2 * x < 1")
    case True
    from 1(1) [OF nb _ True] 1(2)
    have "power_int 2 (exponent_down (2 * x)) \<le> 2 * x"
      "2 * x < power_int 2 (exponent_down (2 * x) + 1)" by simp_all
    then show ?thesis unfolding e by (simp add: s s')
  next
    case False
    then have "exponent_down (2 * x) = 0" by (subst exponent_down.simps) simp
    then show ?thesis using False 1(3) unfolding e by (simp add: power_int_minus)
  qed
qed

lemma binary_exponent_bounds:
  assumes "0 < x"
  shows "power_int 2 (binary_exponent x) \<le> x" and "x < power_int 2 (binary_exponent x + 1)"
  using assms exponent_up_bounds [of x] exponent_down_bounds [of x]
  by (auto simp: binary_exponent_def not_le)


lemma round_half_even_ge: "of_int m \<le> y \<Longrightarrow> m \<le> round_half_even y"
proof -
  assume "of_int m \<le> y"
  then have "m \<le> \<lfloor>y\<rfloor>" by (simp add: le_floor_iff)
  then show ?thesis by (simp add: round_half_even_def Let_def)
qed

lemma round_half_even_less: "y < of_int m - 1 / 2 \<Longrightarrow> round_half_even y < m"
proof -
  assume a: "y < of_int m - 1 / 2"
  then have "y < of_int m" by simp
  then have f: "\<lfloor>y\<rfloor> < m" by (simp add: floor_less_iff)
  show ?thesis
  proof (cases "\<lfloor>y\<rfloor> = m - 1")
    case True
    then have "y - of_int \<lfloor>y\<rfloor> < 1 / 2" using a by simp
    then show ?thesis using True by (simp add: round_half_even_def Let_def)
  next
    case False
    then have "\<lfloor>y\<rfloor> + 1 < m" using f by simp
    then show ?thesis by (simp add: round_half_even_def Let_def)
  qed
qed

text \<open>Below \<open>2 ^ 53\<close> the unit in the last place is the reciprocal of a power of two.\<close>

lemma ulp_reciprocal:
  assumes "0 < x" and "x < 2 ^ 53"
  defines "e \<equiv> max (binary_exponent x) (- 1022)"
  shows "e \<le> 52" and "power_int (2 :: real) (e - 52) = 1 / 2 ^ nat (52 - e)"
proof -
  have "power_int (2 :: real) (binary_exponent x) < power_int 2 53"
    using binary_exponent_bounds(1) [OF assms(1)] assms(2) by simp
  then have "binary_exponent x < 53"
    by (intro power_int_le_imp_less_exp [of 2 "binary_exponent x" 53]) simp_all
  then show le: "e \<le> 52" by (simp add: e_def)
  have "e - 52 = - int (nat (52 - e))" using le by simp
  then have "power_int (2 :: real) (e - 52) = power_int 2 (- int (nat (52 - e)))" by simp
  also have "\<dots> = 1 / 2 ^ nat (52 - e)" by (simp only: power_int_minus_divide power_int_of_nat)
  finally show "power_int (2 :: real) (e - 52) = 1 / 2 ^ nat (52 - e)" .
qed

lemma round_double_pos:
  assumes "0 < x"
  shows "round_double x =
           power_int 2 (max (binary_exponent x) (- 1022) - 52)
           * of_int (round_half_even (x / power_int 2 (max (binary_exponent x) (- 1022) - 52)))"
  using assms by (simp add: round_double_def Let_def)

lemma round_double_ge_nat:
  assumes "0 \<le> x" and "x < 2 ^ 53" and "real i \<le> x"
  shows "real i \<le> round_double x"
proof (cases "x = 0")
  case True
  then show ?thesis using assms(3) by (simp add: round_double_def)
next
  case False
  then have pos: "0 < x" using assms(1) by simp
  define e where "e = max (binary_exponent x) (- 1022)"
  define K where "K = (2 :: nat) ^ nat (52 - e)"
  have ulp: "power_int (2 :: real) (e - 52) = 1 / real K"
    using ulp_reciprocal(2) [OF pos assms(2)] by (simp add: e_def K_def)
  have Kpos: "0 < real K" by (simp add: K_def)
  have "of_int (int (i * K)) \<le> x * real K" using assms(3) Kpos by simp
  then have "int (i * K) \<le> round_half_even (x * real K)" by (rule round_half_even_ge)
  then have "real (i * K) \<le> of_int (round_half_even (x * real K))" by linarith
  then have "real i \<le> of_int (round_half_even (x * real K)) / real K"
    using Kpos by (simp add: pos_le_divide_eq)
  then show ?thesis
    using round_double_pos [OF pos] ulp by (simp add: e_def)
qed

lemma round_double_less_nat:
  assumes "0 \<le> x" and "1 \<le> m" and "real m \<le> 2 ^ 53"
    and "x \<le> real m * (1 - 1 / 2 ^ 53)"
  shows "round_double x < real m"
proof (cases "x = 0")
  case True
  then show ?thesis using assms(2) by (simp add: round_double_def)
next
  case False
  then have pos: "0 < x" using assms(1) by simp
  have mpos: "0 < real m" using assms(2) by simp
  have "real m * (1 - 1 / 2 ^ 53) < real m" using mpos by simp
  then have xm: "x < real m" using assms(4) by simp
  then have x53: "x < 2 ^ 53" using assms(3) by simp
  define e where "e = max (binary_exponent x) (- 1022)"
  define K where "K = (2 :: nat) ^ nat (52 - e)"
  have e52: "e \<le> 52" using ulp_reciprocal(1) [OF pos x53] by (simp add: e_def)
  have ulp: "power_int (2 :: real) (e - 52) = 1 / real K"
    using ulp_reciprocal(2) [OF pos x53] by (simp add: e_def K_def)
  have Kpos: "0 < real K" by (simp add: K_def)
  have pe: "power_int (2 :: real) e < real m"
  proof (cases "binary_exponent x \<le> - 1022")
    case True
    then have "e = - 1022" by (simp add: e_def)
    then have "power_int (2 :: real) e < power_int 2 0"
      by (intro power_int_strict_increasing) simp_all
    then have "power_int (2 :: real) e < 1" by simp
    then show ?thesis using assms(2) by linarith
  next
    case False
    then have "e = binary_exponent x" by (simp add: e_def)
    then show ?thesis using binary_exponent_bounds(1) [OF pos] xm by simp
  qed
  have "real K * power_int (2 :: real) e = 2 ^ 52"
  proof -
    have "real K = power_int 2 (52 - e)"
      using e52 by (simp add: K_def power_int_def)
    moreover have "power_int (2 :: real) (52 - e) * power_int 2 e = power_int 2 (52 - e + e)"
      by (rule power_int_add [symmetric]) simp
    moreover have "power_int (2 :: real) (52 - e + e) = 2 ^ 52" by simp
    ultimately show ?thesis by simp
  qed
  then have "2 ^ 52 < real m * real K" using pe Kpos
    by (metis mult.commute mult_strict_left_mono)
  then have half: "1 / 2 < real m * real K / 2 ^ 53" by (simp add: mult.commute)
  have "x * real K \<le> real m * (1 - 1 / 2 ^ 53) * real K"
    using assms(4) Kpos by (simp add: mult_right_mono)
  also have "\<dots> = real m * real K - real m * real K / 2 ^ 53" by (simp add: algebra_simps)
  also have "\<dots> < real m * real K - 1 / 2" using half by linarith
  finally have "x * real K < of_int (int (m * K)) - 1 / 2" by simp
  then have "round_half_even (x * real K) < int (m * K)" by (rule round_half_even_less)
  then have "of_int (round_half_even (x * real K)) < real (m * K)" by linarith
  then have "of_int (round_half_even (x * real K)) / real K < real m"
    using Kpos by (simp add: pos_divide_less_eq)
  then show ?thesis
    using round_double_pos [OF pos] ulp by (simp add: e_def)
qed

text \<open>
  A double below 1 is at most \<open>1 - 2 ^ (- 53)\<close>: this is the bound on the draws of
  \<^verbatim>\<open>Math.random()\<close> in the statements below.
\<close>

lemma double_below_one:
  assumes "round_double u = u" and "u < 1"
  shows "u \<le> 1 - 1 / 2 ^ 53"
proof (rule ccontr)
  assume "\<not> u \<le> 1 - 1 / 2 ^ 53"
  then have big: "1 - 1 / 2 ^ 53 < u" by simp
  then have half: "1 / 2 < u" by simp
  then have pos: "0 < u" by simp
  have lo: "power_int 2 (binary_exponent u) \<le> u"
    and hi: "u < power_int 2 (binary_exponent u + 1)"
    using binary_exponent_bounds [OF pos] by simp_all
  have "power_int (2 :: real) (binary_exponent u) < power_int 2 0" using lo assms(2) by simp
  then have "binary_exponent u < 0"
    by (intro power_int_le_imp_less_exp [of 2 "binary_exponent u" 0]) simp_all
  moreover have "- 1 < binary_exponent u + 1"
  proof (rule ccontr)
    assume "\<not> - 1 < binary_exponent u + 1"
    then have "binary_exponent u + 1 \<le> - 1" by simp
    then have "power_int (2 :: real) (binary_exponent u + 1) \<le> power_int 2 (- 1)"
      by (intro power_int_increasing) simp_all
    then show False using hi half by (simp add: power_int_minus)
  qed
  ultimately have e: "binary_exponent u = - 1" by simp
  have ulp: "power_int (2 :: real) (max (binary_exponent u) (- 1022) - 52) = 1 / 2 ^ 53"
    unfolding e by (simp add: power_int_minus_divide)
  define k where "k = round_half_even (u * 2 ^ 53)"
  have "round_double u = of_int k / 2 ^ 53"
    using round_double_pos [OF pos] unfolding ulp by (simp add: k_def)
  then have uk: "u * 2 ^ 53 = of_int k" using assms(1) by simp
  have "(1 - 1 / 2 ^ 53) * 2 ^ 53 < u * 2 ^ 53"
    using big by (simp only: mult_less_cancel_right_pos zero_less_power zero_less_numeral)
  then have "of_int (2 ^ 53 - 1) < (of_int k :: real)" unfolding uk by simp
  then have a: "2 ^ 53 - 1 < k" by (simp only: of_int_less_iff)
  have "u * 2 ^ 53 < 1 * 2 ^ 53"
    using assms(2) by (simp only: mult_less_cancel_right_pos zero_less_power zero_less_numeral)
  then have "(of_int k :: real) < of_int (2 ^ 53)" unfolding uk by simp
  then have "k < 2 ^ 53" by (simp only: of_int_less_iff)
  then show False using a by simp
qed

text \<open>
  Two draws at which the rounded product and the exact product have different integer
  parts: the double nearest to 0.3, and \<open>1080863910568919 / 2 ^ 53\<close>.
\<close>

lemma round_double_03: "round_double (5404319552844595 / 2 ^ 54 * 100) = 30"
  by code_simp

lemma round_double_k: "round_double (1080863910568919 / 2 ^ 53 * 100) = 12"
  by code_simp

lemma selectIndex_range:
  assumes "table \<noteq> []" and "real (length table) \<le> 2 ^ 53"
    and "0 \<le> u" and "u \<le> 1 - 1 / 2 ^ 53"
  shows "0 \<le> selectIndex table u \<and> selectIndex table u < int (length table)"
proof -
  let ?n = "length table"
  have n: "1 \<le> ?n" using assms(1) by (cases table) simp_all
  have x0: "0 \<le> u * real ?n" using assms(3) by simp
  have "u * real ?n \<le> (1 - 1 / 2 ^ 53) * real ?n"
    using assms(4) by (intro mult_right_mono) simp_all
  then have hi: "u * real ?n \<le> real ?n * (1 - 1 / 2 ^ 53)" by (simp add: mult.commute)
  have lt: "round_double (u * real ?n) < real ?n"
    using x0 n assms(2) hi by (rule round_double_less_nat)
  have "real ?n * (1 - 1 / 2 ^ 53) < real ?n" using assms(1) by simp
  then have "u * real ?n < 2 ^ 53" using hi assms(2) by linarith
  then have "real 0 \<le> round_double (u * real ?n)"
    using x0 by (intro round_double_ge_nat) simp_all
  then have ge: "0 \<le> round_double (u * real ?n)" by simp
  have "\<lfloor>round_double (u * real ?n)\<rfloor> < int ?n" using lt by (simp add: floor_less_iff)
  moreover have "0 \<le> \<lfloor>round_double (u * real ?n)\<rfloor>" using ge by simp
  ultimately show ?thesis by (simp add: selectIndex_def)
qed

lemma selectScenario_in_range:
  assumes "table \<noteq> []" and "real (length table) \<le> 2 ^ 53"
    and "0 \<le> u" and "u \<le> 1 - 1 / 2 ^ 53"
  shows "selectScenario table u = Some (table ! nat (selectIndex table u))"
  using selectIndex_range [OF assms] by (simp add: selectScenario_def Let_def)

lemma selectIndex_hits:
  assumes "real (length table) \<le> 2 ^ 53" and "i < length table"
    and "real i / real (length table) \<le> u"
    and "u \<le> (real i + 1) / real (length table) * (1 - 1 / 2 ^ 53)"
  shows "selectIndex table u = int i"
proof -
  let ?n = "length table"
  have n: "0 < real ?n" using assms(2) by (cases table) simp_all
  have lo: "real i \<le> u * real ?n" using assms(3) n by (simp add: pos_divide_le_eq)
  have "u * real ?n \<le> (real i + 1) / real ?n * (1 - 1 / 2 ^ 53) * real ?n"
    using assms(4) n by (intro mult_right_mono) simp_all
  also have "\<dots> = real (Suc i) * (1 - 1 / 2 ^ 53)" using n by simp
  finally have hi: "u * real ?n \<le> real (Suc i) * (1 - 1 / 2 ^ 53)" .
  have x0: "0 \<le> u * real ?n" using lo by linarith
  have m: "real (Suc i) \<le> 2 ^ 53" using assms(1,2) by linarith
  have lt: "round_double (u * real ?n) < real (Suc i)"
    using x0 _ m hi by (rule round_double_less_nat) simp
  have "real (Suc i) * (1 - 1 / 2 ^ 53) < real (Suc i)" by simp
  then have "u * real ?n < 2 ^ 53" using hi m by linarith
  then have ge: "real i \<le> round_double (u * real ?n)"
    using x0 lo by (intro round_double_ge_nat)
  have "\<lfloor>round_double (u * real ?n)\<rfloor> = int i"
    using ge lt by (simp add: floor_eq_iff)
  then show ?thesis by (simp add: selectIndex_def)
qed

lemma selectIndex_preimage:
  assumes "table \<noteq> []" and "real (length table) \<le> 2 ^ 53"
    and "0 \<le> u" and "u \<le> 1 - 1 / 2 ^ 53" and "selectIndex table u = int i"
  shows "real i / real (length table) * (1 - 1 / 2 ^ 53) \<le> u"
    and "u < (real i + 1) / real (length table)"
proof -
  let ?n = "length table"
  let ?x = "u * real ?n"
  have n: "0 < real ?n" using assms(1) by simp
  have x0: "0 \<le> ?x" using assms(3) by simp
  from selectIndex_range [OF assms(1-4)] assms(5) have i: "i < ?n" by simp
  have fl: "real i \<le> round_double ?x" "round_double ?x < real i + 1"
    using assms(5) by (simp_all add: selectIndex_def floor_eq_iff)
  have "?x \<le> (1 - 1 / 2 ^ 53) * real ?n"
    using assms(4) by (intro mult_right_mono) simp_all
  also have "\<dots> < real ?n" using n by simp
  finally have x53: "?x < 2 ^ 53" using assms(2) by linarith
  have up: "?x < real i + 1"
  proof (rule ccontr)
    assume "\<not> ?x < real i + 1"
    then have "real (Suc i) \<le> ?x" by simp
    then have "real (Suc i) \<le> round_double ?x"
      using x0 x53 by (intro round_double_ge_nat)
    then show False using fl(2) by simp
  qed
  then show "u < (real i + 1) / real ?n" using n by (simp add: pos_less_divide_eq)
  show "real i / real ?n * (1 - 1 / 2 ^ 53) \<le> u"
  proof (cases "i = 0")
    case True
    then show ?thesis using assms(3) by simp
  next
    case False
    have "\<not> ?x \<le> real i * (1 - 1 / 2 ^ 53)"
    proof
      assume le: "?x \<le> real i * (1 - 1 / 2 ^ 53)"
      have "real i \<le> 2 ^ 53" using i assms(2) by linarith
      then have "round_double ?x < real i"
        using x0 False le by (intro round_double_less_nat) simp_all
      then show False using fl(1) by simp
    qed
    then have "real i * (1 - 1 / 2 ^ 53) < u * real ?n" by simp
    then have "real i * (1 - 1 / 2 ^ 53) / real ?n < u" using n by (simp add: pos_divide_less_eq)
    then show ?thesis by simp
  qed
qed

lemma testLoop_Cons:
  assumes "table \<noteq> []" "real (length table) \<le> 2 ^ 53"
    "0 \<le> random_draw t" "random_draw t \<le> 1 - 1 / 2 ^ 53"
  shows "testLoop cfg endTime interval table nextRequestTime running (t # ts) acc =
     (if now_cond t < endTime \<and> running then
        (if js_ge (Num (now_body t)) nextRequestTime then
           testLoop cfg endTime interval table (js_add nextRequestTime interval)
             (running \<and> \<not> stop_called t) ts
             (acc @ [makeRequest cfg [] GET None (transport_event t)])
         else
           testLoop cfg endTime interval table nextRequestTime
             (running \<and> \<not> stop_called t) ts acc)
      else Inr (running, acc))"
proof -
  obtain sc where "selectScenario table (random_draw t) = Some sc"
    using selectScenario_in_range [OF assms] by simp
  then show ?thesis
    using makeRequest_args [of cfg "endpoint sc" "method' sc" "data sc" "transport_event t" "[]" GET None]
    by simp
qed

lemma scenarios_table_nonempty: "weightedScenarios (scenarios r) \<noteq> []"
  by (rule weightedScenarios_nonempty) (simp_all add: scenarios_def)

lemma scenarios_table_length: "length (weightedScenarios (scenarios r)) = 100"
  by (simp add: length_weightedScenarios scenarios_def)

lemma scenarios_table_fits: "real (length (weightedScenarios (scenarios r))) \<le> 2 ^ 53"
  by (simp add: scenarios_table_length)

lemma requestPromises_idle:
  "requestPromises (config (new_LoadTester zero_duration_options)) tps idle_env = Inr (True, [])"
  by (simp add: requestPromises_def idle_env_def new_LoadTester_def zero_duration_options_def)

lemma requestPromises_two:
  assumes "5 \<le> tps" and "duration cfg = 60"
  shows "requestPromises cfg tps (two_request_env a b) =
     Inr (True, [makeRequest cfg [] GET None a, makeRequest cfg [] GET None b])"
proof -
  have pos: "0 < tps" using assms(1) by simp
  then have iv: "0 < 1000 / tps" by simp
  have "1000 \<le> 201 * tps" using assms(1) by simp
  then have "1000 / tps \<le> 201" using pos by (simp add: pos_divide_le_eq)
  then have late: "1000 + 1000 / tps \<le> 1201" by simp
  have early: "\<not> 1000 + 1000 / tps \<le> 1000" using iv by simp
  have far: "\<not> (61000 :: real) < 1000 + 60 * 1000" by simp
  show ?thesis
    using pos late early far assms(2)
    by (simp add: requestPromises_def two_request_env_def testLoop_Cons
          scenarios_table_nonempty scenarios_table_length del: testLoop.simps(2))
qed

lemma requestPromises_two_cli:
  "5 \<le> tps \<Longrightarrow>
     requestPromises (config (new_LoadTester cli_options)) tps (two_request_env a b) =
       Inr (True, [makeRequest (config (new_LoadTester cli_options)) [] GET None a,
                   makeRequest (config (new_LoadTester cli_options)) [] GET None b])"
  by (rule requestPromises_two) (simp_all add: new_LoadTester_def cli_options_def)

lemma runTest_returns:
  assumes "requestPromises (config st) tps env = Inr (run, ps)"
    and "sort (completion env) = [0..<length ps]"
    and "Pending \<notin> set ps"
  obtains st' r where
    "runTest st tps name env = Inr (st', r)"
    "st' = st\<lparr>isRunning := run, requestCount := length ps,
               errorCount := length (filter failed ps),
               responseTimes := sort (map recordedTime ps),
               results := results st @ [r]\<rparr>"
    "totalRequests r = length ps"
    "resultErrorCount r = length (filter failed ps)"
    "errorRate r = js_mul (js_div (Num (real (length (filter failed ps))))
                     (Num (real (length ps)))) (Num 100)"
    "actualTPS r = js_div (Num (real (length ps))) (Num (duration (config st)))"
    "testName r = name" "targetTPS r = tps"
    "avgResponseTime r = avgResponseTime (calculateStats st')"
    "minResponseTime r = minResponseTime (calculateStats st')"
    "maxResponseTime r = maxResponseTime (calculateStats st')"
    "p50ResponseTime r = p50ResponseTime (calculateStats st')"
    "p95ResponseTime r = p95ResponseTime (calculateStats st')"
    "p99ResponseTime r = p99ResponseTime (calculateStats st')"
proof -
  define st0 where "st0 = st\<lparr>isRunning := run, requestCount := length ps,
                          errorCount := length (filter failed ps),
                          responseTimes := sort (map recordedTime ps)\<rparr>"
  define r where "r = \<lparr> avgResponseTime = avgResponseTime (calculateStats st0),
                       minResponseTime = minResponseTime (calculateStats st0),
                       maxResponseTime = maxResponseTime (calculateStats st0),
                       p50ResponseTime = p50ResponseTime (calculateStats st0),
                       p95ResponseTime = p95ResponseTime (calculateStats st0),
                       p99ResponseTime = p99ResponseTime (calculateStats st0),
                       testName = name,
                       targetTPS = tps,
                       actualTPS = js_div (Num (real (length ps))) (Num (duration (config st))),
                       totalRequests = length ps,
                       resultErrorCount = length (filter failed ps),
                       errorRate =
                         js_mul (js_div (Num (real (length (filter failed ps))))
                                   (Num (real (length ps)))) (Num 100) \<rparr>"
  have run: "runTest st tps name env = Inr (st0\<lparr>results := results st @ [r]\<rparr>, r)"
    using assms by (simp add: runTest_unfold [of st tps name env] Let_def st0_def r_def)
  have cs: "calculateStats (st0\<lparr>results := results st @ [r]\<rparr>) = calculateStats st0"
    by (rule calculateStats_cong) simp
  show thesis
  proof (rule that [of "st0\<lparr>results := results st @ [r]\<rparr>" r])
    show "runTest st tps name env = Inr (st0\<lparr>results := results st @ [r]\<rparr>, r)" by (rule run)
    show "st0\<lparr>results := results st @ [r]\<rparr> = st\<lparr>isRunning := run, requestCount := length ps,
               errorCount := length (filter failed ps),
               responseTimes := sort (map recordedTime ps),
               results := results st @ [r]\<rparr>" by (simp add: st0_def)
  qed (simp_all add: cs, simp_all add: r_def)
qed

lemma runTest_InrD:
  assumes "runTest st tps name env = Inr (st', r)"
  shows "\<exists>run ps. requestPromises (config st) tps env = Inr (run, ps)
           \<and> sort (completion env) = [0..<length ps] \<and> Pending \<notin> set ps"
proof (cases "requestPromises (config st) tps env")
  case (Inl e)
  then show ?thesis using assms by (simp add: runTest_unfold [of st tps name env])
next
  case (Inr rp)
  obtain run ps where rp: "rp = (run, ps)" by (cases rp)
  show ?thesis
    using assms Inr rp
    by (auto simp: runTest_unfold [of st tps name env] Let_def split: if_splits)
qed

lemma succeeded_not_failed: "succeeded p \<Longrightarrow> \<not> failed p"
  by (cases p) simp_all

lemma runTest_two_requests:
  assumes "5 \<le> tps" and "duration (config st) = 60"
    and "makeRequest (config st) [] GET None a \<noteq> Pending"
    and "makeRequest (config st) [] GET None b \<noteq> Pending"
  shows "\<exists>st' r. runTest st tps name (two_request_env a b) = Inr (st', r)"
proof -
  have ord: "sort (completion (two_request_env a b)) =
      [0..<length [makeRequest (config st) [] GET None a,
                   makeRequest (config st) [] GET None b]]"
    by (simp add: two_request_env_def upt_rec)
  have np: "Pending \<notin> set [makeRequest (config st) [] GET None a,
                   makeRequest (config st) [] GET None b]"
    using assms(3,4) by auto
  show ?thesis
    by (rule runTest_returns [OF requestPromises_two [OF assms(1,2)] ord np]) blast
qed

lemma runTest_two_requests_cli:
  assumes "makeRequest (config (new_LoadTester cli_options)) [] GET None a \<noteq> Pending"
    and "makeRequest (config (new_LoadTester cli_options)) [] GET None b \<noteq> Pending"
  shows "\<exists>st' r. runTest (new_LoadTester cli_options) 5 name (two_request_env a b) = Inr (st', r)"
  using assms by (intro runTest_two_requests) (simp_all add: new_LoadTester_def cli_options_def)

lemma runTest_mixed_value:
  "runTest (new_LoadTester cli_options) 5 ''5TPS''
       (two_request_env (ResponseEnd 200 12 []) (ExecutorThrows ''Invalid URL''))
     = Inr ((new_LoadTester cli_options)
              \<lparr> isRunning := True, requestCount := 2, errorCount := 1, responseTimes := [0, 12],
                results := [\<lparr> avgResponseTime = Num 6, minResponseTime = Num 0,
                   maxResponseTime = Num 12, p50ResponseTime = Num 0,
                   p95ResponseTime = Num 12, p99ResponseTime = Num 12,
                   testName = ''5TPS'', targetTPS = 5, actualTPS = Num (1 / 30),
                   totalRequests = 2, resultErrorCount = 1, errorRate = Num 50 \<rparr>] \<rparr>,
            \<lparr> avgResponseTime = Num 6, minResponseTime = Num 0,
                   maxResponseTime = Num 12, p50ResponseTime = Num 0,
                   p95ResponseTime = Num 12, p99ResponseTime = Num 12,
                   testName = ''5TPS'', targetTPS = 5, actualTPS = Num (1 / 30),
                   totalRequests = 2, resultErrorCount = 1, errorRate = Num 50 \<rparr>)"
  apply (simp add: runTest_unfold requestPromises_two_cli)
  apply (simp add: two_request_env_def upt_rec Let_def calculateStats_def percentile_def js_nth_def new_LoadTester_def cli_options_def)
  done

lemma sorted_hd_zero:
  fixes xs :: "real list"
  assumes "sorted xs" "0 \<in> set xs" "\<forall>x\<in>set xs. 0 \<le> x"
  shows "xs ! 0 = 0"
proof -
  have ne: "xs \<noteq> []" using assms(2) by auto
  then obtain y ys where xs: "xs = y # ys" by (cases xs) auto
  have "y \<le> 0" using assms(1,2) xs by auto
  moreover have "0 \<le> y" using assms(3) xs by simp
  ultimately show ?thesis using xs by simp
qed

lemma completion_idle: "completion idle_env = []"
  by (simp add: idle_env_def)

lemma calculateStats_empty:
  "responseTimes st = [] \<Longrightarrow>
     calculateStats st =
       \<lparr> avgResponseTime = Num 0, minResponseTime = Num 0, maxResponseTime = Num 0,
         p50ResponseTime = Num 0, p95ResponseTime = Num 0, p99ResponseTime = Num 0 \<rparr>"
  by (simp add: calculateStats_def)

lemma show_nat_levels:
  "map (\<lambda>tps. show_nat tps @ ''TPS'') tpsLevels
     = [''5TPS'', ''10TPS'', ''15TPS'', ''30TPS'', ''40TPS'', ''100TPS'', ''1000TPS'']"
  by (simp add: tpsLevels_def show_nat.simps digit_char_def)

lemma runTest_result_depends_on_config:
  assumes "config s1 = config s2"
  shows "map_sum id snd (runTest s1 tps name env) = map_sum id snd (runTest s2 tps name env)"
proof (cases "requestPromises (config s2) tps env")
  case (Inl e)
  then show ?thesis using assms by (simp add: runTest_unfold)
next
  case (Inr rp)
  obtain run ps where rp: "rp = (run, ps)" by (cases rp)
  show ?thesis
  proof (cases "sort (completion env) = [0..<length ps] \<and> Pending \<notin> set ps")
    case False
    then show ?thesis using assms Inr rp by (auto simp: runTest_unfold)
  next
    case True
    then have ord: "sort (completion env) = [0..<length ps]" and np: "Pending \<notin> set ps"
      by simp_all
    have rp1: "requestPromises (config s1) tps env = Inr (run, ps)" using Inr rp assms by simp
    have rp2: "requestPromises (config s2) tps env = Inr (run, ps)" using Inr rp by simp
    have cs: "calculateStats
                (s1\<lparr>isRunning := run, requestCount := length ps,
                     errorCount := length (filter failed ps),
                     responseTimes := sort (map recordedTime ps)\<rparr>)
              = calculateStats
                (s2\<lparr>isRunning := run, requestCount := length ps,
                     errorCount := length (filter failed ps),
                     responseTimes := sort (map recordedTime ps)\<rparr>)"
      by (rule calculateStats_cong) simp
    show ?thesis
      using ord np assms
      by (simp add: runTest_unfold [of s1] runTest_unfold [of s2] rp1 rp2 Let_def cs)
  qed
qed

lemma runTest_config:
  assumes "runTest st tps name env = Inr (st', r)"
  shows "config st' = config st \<and> results st' = results st @ [r] \<and> targetTPS r = tps
         \<and> testName r = name"
proof -
  from runTest_InrD [OF assms] obtain run ps where
    rp: "requestPromises (config st) tps env = Inr (run, ps)"
    and ord: "sort (completion env) = [0..<length ps]" and np: "Pending \<notin> set ps"
    by blast
  obtain st2 r2 where "runTest st tps name env = Inr (st2, r2)"
    and "st2 = st\<lparr>isRunning := run, requestCount := length ps,
               errorCount := length (filter failed ps),
               responseTimes := sort (map recordedTime ps),
               results := results st @ [r2]\<rparr>"
    and "targetTPS r2 = tps" "testName r2 = name"
    by (rule runTest_returns [OF rp ord np])
  then show ?thesis using assms by simp
qed

lemma sweep_appends:
  "sweep st levels i envs = Inr st' \<Longrightarrow>
     config st' = config st
     \<and> (\<exists>new. results st' = results st @ new \<and> length new = length levels
           \<and> map targetTPS new = map real levels
           \<and> (\<forall>k<length levels. \<forall>s. config s = config st \<longrightarrow>
                 map_sum id snd
                   (runTest s (real (levels ! k)) (show_nat (levels ! k) @ ''TPS'') (envs (i + k)))
                 = Inr (new ! k)))"
proof (induction levels arbitrary: st i)
  case Nil
  then show ?case by simp
next
  case (Cons tps rest)
  let ?name = "show_nat tps @ ''TPS''"
  from Cons.prems obtain st1 r where
    ret: "runTest st (real tps) ?name (envs i) = Inr (st1, r)"
    and rest: "sweep st1 rest (Suc i) envs = Inr st'"
    by (auto split: sum.splits)
  from runTest_config [OF ret] have c1: "config st1 = config st"
    and r1: "results st1 = results st @ [r]" and t1: "targetTPS r = real tps"
    by simp_all
  from Cons.IH [OF rest] obtain new where
    c2: "config st' = config st1"
    and res: "results st' = results st1 @ new"
    and len: "length new = length rest"
    and tps: "map targetTPS new = map real rest"
    and each: "\<forall>k<length rest. \<forall>s. config s = config st1 \<longrightarrow>
                 map_sum id snd
                   (runTest s (real (rest ! k)) (show_nat (rest ! k) @ ''TPS'') (envs (Suc i + k)))
                 = Inr (new ! k)"
    by blast
  have phase: "map_sum id snd
                 (runTest s (real ((tps # rest) ! k)) (show_nat ((tps # rest) ! k) @ ''TPS'')
                    (envs (i + k)))
               = Inr ((r # new) ! k)"
    if k: "k < length (tps # rest)" and s: "config s = config st" for k s
  proof (cases k)
    case 0
    have "map_sum id snd (runTest s (real tps) ?name (envs i))
            = map_sum id snd (runTest st (real tps) ?name (envs i))"
      using s by (rule runTest_result_depends_on_config)
    then show ?thesis using 0 ret by simp
  next
    case (Suc j)
    then have "j < length rest" using k by simp
    moreover have "config s = config st1" using s c1 by simp
    ultimately show ?thesis using each Suc by simp
  qed
  have a: "results st' = results st @ (r # new)" using res r1 by simp
  have b: "length (r # new) = length (tps # rest)" using len by simp
  have c: "map targetTPS (r # new) = map real (tps # rest)" using tps t1 by simp
  have d: "config st' = config st" using c1 c2 by simp
  show ?case
  proof (intro conjI exI [of _ "r # new"] allI impI)
    show "config st' = config st" by (rule d)
    show "results st' = results st @ r # new" by (rule a)
    show "length (r # new) = length (tps # rest)" by (rule b)
    show "map targetTPS (r # new) = map real (tps # rest)" by (rule c)
    fix k and s :: LoadTester
    assume "k < length (tps # rest)" and "config s = config st"
    then show "map_sum id snd
                 (runTest s (real ((tps # rest) ! k)) (show_nat ((tps # rest) ! k) @ ''TPS'')
                    (envs (i + k)))
               = Inr ((r # new) ! k)"
      by (rule phase)
  qed
qed

lemma runWarmup_leaves_tester:
  "runWarmup st env = Inr (st', report) \<Longrightarrow> st' = st"
  by (auto simp: runWarmup_def Let_def split: sum.splits prod.splits)

lemma makeRequest_Pending_iff:
  "makeRequest cfg ep m payload ev = Pending \<longleftrightarrow> ev = NeverSettles"
  by (cases ev) simp_all

lemma runWarmup_late:
  assumes "warmupDuration (config st) = 180"
  shows "runWarmup st late_env
           = Inr (st, \<lparr> warmupTotal = 0,
                        actualWarmupTPS = Num 0,
                        warmupErrorRate = NaN \<rparr>)"
  using assms
  by (simp add: runWarmup_def warmupPromises_def late_env_def inCompletionOrder_def Let_def)

lemma sweep_two_requests:
  assumes "duration (config st) = 60" and "\<forall>tps\<in>set levels. 5 \<le> tps"
    and "a \<noteq> NeverSettles" and "b \<noteq> NeverSettles"
  shows "\<exists>st'. sweep st levels i (\<lambda>k. two_request_env a b) = Inr st'"
  using assms(1,2)
proof (induction levels arbitrary: st i)
  case Nil
  show ?case by simp
next
  case (Cons tps rest)
  have "5 \<le> real tps" using Cons.prems(2) by simp
  then obtain st1 r where
    ret: "runTest st (real tps) (show_nat tps @ ''TPS'') (two_request_env a b) = Inr (st1, r)"
    using runTest_two_requests [of "real tps" st a b "show_nat tps @ ''TPS''"]
      Cons.prems(1) assms(3,4)
    by (auto simp: makeRequest_Pending_iff)
  have "config st1 = config st" using runTest_config [OF ret] by simp
  then have "duration (config st1) = 60" using Cons.prems(1) by simp
  moreover have "\<forall>tps\<in>set rest. 5 \<le> tps" using Cons.prems(2) by simp
  ultimately obtain st' where "sweep st1 rest (Suc i) (\<lambda>k. two_request_env a b) = Inr st'"
    using Cons.IH by blast
  then show ?case using ret by simp
qed

lemma testLoop_exits:
  assumes "table \<noteq> []" and "real (length table) \<le> 2 ^ 53"
    and "\<forall>t\<in>set ts. 0 \<le> random_draw t \<and> random_draw t \<le> 1 - 1 / 2 ^ 53"
    and "\<exists>t\<in>set ts. endTime \<le> now_cond t"
  shows "\<exists>run ps. testLoop cfg endTime interval table nextRequestTime running ts acc
           = Inr (run, ps)"
  using assms(3,4)
proof (induction ts arbitrary: nextRequestTime running acc)
  case Nil
  then show ?case by simp
next
  case (Cons t ts)
  have draw: "0 \<le> random_draw t" "random_draw t \<le> 1 - 1 / 2 ^ 53"
    using Cons.prems(1) by simp_all
  note step = testLoop_Cons [OF assms(1,2) draw]
  show ?case
  proof (cases "now_cond t < endTime \<and> running")
    case False
    then show ?thesis unfolding step by auto
  next
    case True
    then have "\<not> endTime \<le> now_cond t" by simp
    then have later: "\<exists>t\<in>set ts. endTime \<le> now_cond t" using Cons.prems(2) by auto
    have draws: "\<forall>t\<in>set ts. 0 \<le> random_draw t \<and> random_draw t \<le> 1 - 1 / 2 ^ 53"
      using Cons.prems(1) by simp
    show ?thesis
      unfolding step using True Cons.IH [OF draws later] by simp
  qed
qed

lemma requestPromises_returns:
  assumes "\<forall>t\<in>set (ticks env). 0 \<le> random_draw t \<and> random_draw t \<le> 1 - 1 / 2 ^ 53"
    and "\<exists>t\<in>set (ticks env). startTime env + duration cfg * 1000 \<le> now_cond t"
  shows "\<exists>run ps. requestPromises cfg tps env = Inr (run, ps)"
  unfolding requestPromises_def Let_def
  using scenarios_table_nonempty scenarios_table_fits assms by (rule testLoop_exits)

lemma settleAllWarmup_closed:
  "settleAllWarmup (a, b) ps =
     (if Pending \<in> set ps then Inl JoinPending
      else Inr (a + length ps, b + length (filter failed ps)))"
proof (induction ps arbitrary: a b)
  case Nil
  show ?case by simp
next
  case (Cons p ps)
  show ?case by (cases p) (simp_all add: Cons)
qed

lemma warmupLoop_Cons:
  assumes "table \<noteq> []" "real (length table) \<le> 2 ^ 53"
    "0 \<le> random_draw t" "random_draw t \<le> 1 - 1 / 2 ^ 53"
  shows "warmupLoop cfg endTime interval table nextRequestTime (t # ts) acc =
     (if now_cond t < endTime then
        (if js_ge (Num (now_body t)) nextRequestTime then
           warmupLoop cfg endTime interval table (js_add nextRequestTime interval) ts
             (acc @ [makeRequest cfg [] GET None (transport_event t)])
         else warmupLoop cfg endTime interval table nextRequestTime ts acc)
      else Inr acc)"
proof -
  obtain sc where "selectScenario table (random_draw t) = Some sc"
    using selectScenario_in_range [OF assms] by simp
  then show ?thesis
    using makeRequest_args [of cfg "endpoint sc" "method' sc" "data sc" "transport_event t" "[]" GET None]
    by simp
qed

lemma warmup_table_nonempty: "weightedScenarios (warmupScenarios r) \<noteq> []"
  by (rule weightedScenarios_nonempty) (simp_all add: warmupScenarios_def)

lemma warmup_table_length: "length (weightedScenarios (warmupScenarios r)) = 100"
  by (simp add: length_weightedScenarios warmupScenarios_def)

lemma warmup_table_fits: "real (length (weightedScenarios (warmupScenarios r))) \<le> 2 ^ 53"
  by (simp add: warmup_table_length)

lemma warmupLoop_exits:
  assumes "table \<noteq> []" and "real (length table) \<le> 2 ^ 53"
    and "\<forall>t\<in>set ts. 0 \<le> random_draw t \<and> random_draw t \<le> 1 - 1 / 2 ^ 53"
    and "\<exists>t\<in>set ts. endTime \<le> now_cond t"
  shows "\<exists>ps. warmupLoop cfg endTime interval table nextRequestTime ts acc = Inr ps"
  using assms(3,4)
proof (induction ts arbitrary: nextRequestTime acc)
  case Nil
  then show ?case by simp
next
  case (Cons t ts)
  have draw: "0 \<le> random_draw t" "random_draw t \<le> 1 - 1 / 2 ^ 53"
    using Cons.prems(1) by simp_all
  note step = warmupLoop_Cons [OF assms(1,2) draw]
  show ?case
  proof (cases "now_cond t < endTime")
    case False
    then show ?thesis unfolding step by auto
  next
    case True
    then have "\<not> endTime \<le> now_cond t" by simp
    then have later: "\<exists>t\<in>set ts. endTime \<le> now_cond t" using Cons.prems(2) by auto
    have draws: "\<forall>t\<in>set ts. 0 \<le> random_draw t \<and> random_draw t \<le> 1 - 1 / 2 ^ 53"
      using Cons.prems(1) by simp
    show ?thesis
      unfolding step using True Cons.IH [OF draws later] by simp
  qed
qed

lemma warmupPromises_returns:
  assumes "\<forall>t\<in>set (ticks env). 0 \<le> random_draw t \<and> random_draw t \<le> 1 - 1 / 2 ^ 53"
    and "\<exists>t\<in>set (ticks env). startTime env + warmupDuration cfg * 1000 \<le> now_cond t"
  shows "\<exists>ps. warmupPromises cfg env = Inr ps"
  unfolding warmupPromises_def Let_def
  using warmup_table_nonempty warmup_table_fits assms by (rule warmupLoop_exits)

lemma runWarmup_returns:
  assumes "warmupPromises (config st) env = Inr ps"
    and "sort (completion env) = [0..<length ps]"
    and "Pending \<notin> set ps"
  shows "runWarmup st env
           = Inr (st, \<lparr> warmupTotal = length ps,
                        actualWarmupTPS =
                          js_div (Num (real (length ps))) (Num (warmupDuration (config st))),
                        warmupErrorRate =
                          js_mul (js_div (Num (real (length (filter failed ps))))
                                    (Num (real (length ps)))) (Num 100) \<rparr>)"
proof -
  note f = completion_facts [OF assms(2)]
  have "Pending \<notin> set (map (\<lambda>i. ps ! i) (completion env))" using f(1) assms(3) by simp
  then show ?thesis
    using assms(1,2) f(2) f(3) [of failed]
    by (simp add: runWarmup_def inCompletionOrder_def settleAllWarmup_closed)
qed

lemma warmupPromises_two:
  assumes "warmupTPS cfg = 1000" and "warmupDuration cfg = 180"
  shows "warmupPromises cfg (two_request_warmup_env a b) =
     Inr [makeRequest cfg [] GET None a, makeRequest cfg [] GET None b]"
  using assms
  by (simp add: warmupPromises_def two_request_warmup_env_def warmupLoop_Cons
        warmup_table_nonempty warmup_table_length del: warmupLoop.simps(2))

lemma sweep_returns:
  assumes "\<forall>k<length levels. \<exists>run ps.
             requestPromises (config st) (real (levels ! k)) (envs (i + k)) = Inr (run, ps)
             \<and> sort (completion (envs (i + k))) = [0..<length ps] \<and> Pending \<notin> set ps"
  shows "\<exists>st'. sweep st levels i envs = Inr st'"
  using assms
proof (induction levels arbitrary: st i)
  case Nil
  show ?case by simp
next
  case (Cons tps rest)
  from Cons.prems [rule_format, of 0] obtain run ps where
    rp: "requestPromises (config st) (real tps) (envs i) = Inr (run, ps)"
    and ord: "sort (completion (envs i)) = [0..<length ps]" and np: "Pending \<notin> set ps"
    by auto
  obtain st1 r where
    ret: "runTest st (real tps) (show_nat tps @ ''TPS'') (envs i) = Inr (st1, r)"
    by (rule runTest_returns [OF rp ord np])
  have cfg: "config st1 = config st" using runTest_config [OF ret] by simp
  have "\<forall>k<length rest. \<exists>run ps.
             requestPromises (config st1) (real (rest ! k)) (envs (Suc i + k)) = Inr (run, ps)
             \<and> sort (completion (envs (Suc i + k))) = [0..<length ps] \<and> Pending \<notin> set ps"
  proof (intro allI impI)
    fix k assume "k < length rest"
    then have "Suc k < length (tps # rest)" by simp
    from Cons.prems [rule_format, OF this] show "\<exists>run ps.
             requestPromises (config st1) (real (rest ! k)) (envs (Suc i + k)) = Inr (run, ps)
             \<and> sort (completion (envs (Suc i + k))) = [0..<length ps] \<and> Pending \<notin> set ps"
      using cfg by simp
  qed
  from Cons.IH [OF this] obtain st' where "sweep st1 rest (Suc i) envs = Inr st'" by blast
  then show ?case using ret by simp
qed

section \<open>The request executor\<close>

text \<open>
  C1, as the specification states it: a received response is classified as a success
  exactly when its status code lies in [200, 400). The code draws the line at 300: a
  redirect (here 301) that arrives as a complete response is fulfilled with
  \<^verbatim>\<open>success: false\<close>.
\<close>

theorem makeRequest_redirect_not_success:
  "makeRequest (config (new_LoadTester cli_options)) ''/health'' GET None
       (ResponseEnd 301 7 [])
     = Fulfilled \<lparr> statusCode = 301, responseTime = 7, body = [], success = False \<rparr>
   \<and> \<not> (success \<lparr> statusCode = 301, responseTime = 7, body = [], success = False \<rparr>
          \<longleftrightarrow> 200 \<le> (301 :: int) \<and> (301 :: int) < 400)"
  by simp

text \<open>
  C1, amended: for every response that the request executor receives, the result has
  \<^verbatim>\<open>success = true\<close> if and only if the status code lies in the half-open interval
  [200, 300); the result carries the status code and the elapsed time of the response.
\<close>

theorem makeRequest_success_iff_2xx:
  assumes "makeRequest cfg ep m payload (ResponseEnd status elapsed content) = Fulfilled r"
  shows "(success r \<longleftrightarrow> 200 \<le> status \<and> status < 300)
         \<and> statusCode r = status \<and> responseTime r = elapsed"
  using assms by auto

theorem makeRequest_success_iff_2xx_witness:
  "makeRequest (config (new_LoadTester cli_options)) ''/users/123'' GET None
       (ResponseEnd 204 12 [])
     = Fulfilled \<lparr> statusCode = 204, responseTime = 12, body = [], success = True \<rparr>
   \<and> (success \<lparr> statusCode = 204, responseTime = 12, body = [], success = True \<rparr>
          \<longleftrightarrow> 200 \<le> (204 :: int) \<and> (204 :: int) < 300)"
proof -
  have h: "makeRequest (config (new_LoadTester cli_options)) ''/users/123'' GET None
             (ResponseEnd 204 12 [])
           = Fulfilled \<lparr> statusCode = 204, responseTime = 12, body = [], success = True \<rparr>"
    by simp
  show ?thesis using h makeRequest_success_iff_2xx [OF h] by blast
qed

text \<open>
  C2, as the specification states it: the request executor always resolves to a result
  and never lets a rejection pass to its caller. On a refused connection the promise of
  \<^verbatim>\<open>makeRequest\<close> is rejected, not fulfilled.
\<close>

theorem makeRequest_connection_refused_rejects:
  "makeRequest (config (new_LoadTester cli_options)) ''/health'' GET None
       (RequestError ''connect ECONNREFUSED'' 3)
     = Rejected (Failure ''connect ECONNREFUSED'' 3)"
  by simp

text \<open>
  C2, amended: the request executor fulfils its promise with a result exactly when a
  response is received in full. When the \<^verbatim>\<open>error\<close> event of the request fires, as on a
  connection failure, it rejects the promise with \<^verbatim>\<open>success = false\<close>, the error message
  and the elapsed duration; when the \<^verbatim>\<open>timeout\<close> event fires, with the message
  \<^verbatim>\<open>Request timeout\<close> and the configured timeout (30000 when none is configured) as
  duration; when a statement of the executor throws, with the thrown error. When none of
  its handlers ever runs, the promise never settles. A rejection does pass to the
  caller. The handlers that \<^verbatim>\<open>runTest\<close> chains to the request turn every settled outcome
  into exactly one recorded request, a rejection into a counted error with its duration
  (0 when it has none): the chained promise is fulfilled whenever the request settles,
  and it stays pending, and with it the join, exactly when the request never settles.
\<close>

theorem makeRequest_settlement_and_catch:
  "(\<forall>status elapsed content.
      makeRequest cfg ep m payload (ResponseEnd status elapsed content)
        = Fulfilled \<lparr> statusCode = status, responseTime = elapsed, body = content,
                      success = (200 \<le> status \<and> status < 300) \<rparr>)
   \<and> (\<forall>msg t. makeRequest cfg ep m payload (RequestError msg t) = Rejected (Failure msg t))
   \<and> makeRequest cfg ep m payload RequestTimeout
       = Rejected (Failure ''Request timeout''
           (case timeout cfg of None \<Rightarrow> 30000 | Some x \<Rightarrow> if x = 0 then 30000 else x))
   \<and> (\<forall>msg. makeRequest cfg ep m payload (ExecutorThrows msg) = Rejected (Thrown msg))
   \<and> (\<forall>ev. (\<exists>r. makeRequest cfg ep m payload ev = Fulfilled r)
             \<longleftrightarrow> (\<exists>status elapsed content. ev = ResponseEnd status elapsed content))
   \<and> (\<forall>ev. makeRequest cfg ep m payload ev = Pending \<longleftrightarrow> ev = NeverSettles)
   \<and> (\<forall>err. onSettled st (Rejected err)
             = Inr (st\<lparr>requestCount := requestCount st + 1,
                        errorCount := errorCount st + 1,
                        responseTimes := responseTimes st @ [or_zero (rej_responseTime err)]\<rparr>))
   \<and> (\<forall>ev. ev \<noteq> NeverSettles \<longrightarrow>
          (\<exists>st'. onSettled st (makeRequest cfg ep m payload ev) = Inr st'
             \<and> requestCount st' = requestCount st + 1
             \<and> responseTimes st'
                 = responseTimes st @ [recordedTime (makeRequest cfg ep m payload ev)]))
   \<and> (\<forall>ev. onSettled st (makeRequest cfg ep m payload ev) = Inl JoinPending
             \<longleftrightarrow> ev = NeverSettles)"
proof (intro conjI allI impI)
  fix ev
  show "(\<exists>r. makeRequest cfg ep m payload ev = Fulfilled r)
          \<longleftrightarrow> (\<exists>status elapsed content. ev = ResponseEnd status elapsed content)"
    by (cases ev) simp_all
  show "makeRequest cfg ep m payload ev = Pending \<longleftrightarrow> ev = NeverSettles"
    by (cases ev) simp_all
  show "onSettled st (makeRequest cfg ep m payload ev) = Inl JoinPending \<longleftrightarrow> ev = NeverSettles"
    by (cases ev) (simp_all add: Let_def)
next
  fix ev
  assume "ev \<noteq> NeverSettles"
  then have "makeRequest cfg ep m payload ev \<noteq> Pending" by (cases ev) simp_all
  then show "\<exists>st'. onSettled st (makeRequest cfg ep m payload ev) = Inr st'
             \<and> requestCount st' = requestCount st + 1
             \<and> responseTimes st'
                 = responseTimes st @ [recordedTime (makeRequest cfg ep m payload ev)]"
    by (simp add: onSettled_closed)
qed (simp_all add: Let_def)

theorem makeRequest_settlement_and_catch_witness:
  "ExecutorThrows ''Invalid URL'' \<noteq> NeverSettles
   \<and> makeRequest (config (new_LoadTester cli_options)) ''/health'' GET None
         (ExecutorThrows ''Invalid URL'') = Rejected (Thrown ''Invalid URL'')
   \<and> onSettled (new_LoadTester cli_options)
         (makeRequest (config (new_LoadTester cli_options)) ''/health'' GET None
            (ExecutorThrows ''Invalid URL''))
       = Inr ((new_LoadTester cli_options)
                \<lparr>requestCount := 1, errorCount := 1, responseTimes := [0]\<rparr>)
   \<and> RequestTimeout \<noteq> NeverSettles
   \<and> onSettled (new_LoadTester cli_options)
         (makeRequest (config (new_LoadTester cli_options)) ''/health'' GET None RequestTimeout)
       = Inr ((new_LoadTester cli_options)
                \<lparr>requestCount := 1, errorCount := 1, responseTimes := [30000]\<rparr>)
   \<and> onSettled (new_LoadTester cli_options)
         (makeRequest (config (new_LoadTester cli_options)) ''/health'' GET None NeverSettles)
       = Inl JoinPending"
proof -
  let ?T = "new_LoadTester cli_options"
  note t = makeRequest_settlement_and_catch [of "config ?T" "''/health''" GET None ?T]
  have thrown: "makeRequest (config ?T) ''/health'' GET None (ExecutorThrows ''Invalid URL'')
                  = Rejected (Thrown ''Invalid URL'')"
    using t by blast
  have timed: "makeRequest (config ?T) ''/health'' GET None RequestTimeout
                 = Rejected (Failure ''Request timeout'' 30000)"
    using t by (simp add: new_LoadTester_def cli_options_def)
  have caught: "onSettled ?T (Rejected err)
             = Inr (?T\<lparr>requestCount := requestCount ?T + 1,
                        errorCount := errorCount ?T + 1,
                        responseTimes := responseTimes ?T @ [or_zero (rej_responseTime err)]\<rparr>)"
    for err
    using t by blast
  have zero: "requestCount ?T = 0" "errorCount ?T = 0" "responseTimes ?T = []"
    by (simp_all add: new_LoadTester_def)
  have a: "onSettled ?T (makeRequest (config ?T) ''/health'' GET None
              (ExecutorThrows ''Invalid URL''))
           = Inr (?T\<lparr>requestCount := 1, errorCount := 1, responseTimes := [0]\<rparr>)"
    unfolding thrown caught zero by simp
  have b: "onSettled ?T (makeRequest (config ?T) ''/health'' GET None RequestTimeout)
           = Inr (?T\<lparr>requestCount := 1, errorCount := 1, responseTimes := [30000]\<rparr>)"
    unfolding timed caught zero by simp
  have c: "onSettled ?T (makeRequest (config ?T) ''/health'' GET None NeverSettles)
             = Inl JoinPending"
    using t by blast
  have n1: "ExecutorThrows ''Invalid URL'' \<noteq> NeverSettles" by simp
  have n2: "RequestTimeout \<noteq> NeverSettles" by simp
  show ?thesis using n1 thrown a n2 b c by (intro conjI)
qed

section \<open>Statistics of a phase\<close>

text \<open>
  C5: \<^verbatim>\<open>percentile(p)\<close> reads the sorted sample at the index
  \<open>\<lceil>p / 100 \<times> n\<rceil> - 1\<close> clamped into \<open>[0, n - 1]\<close>. For every non-empty sorted sample
  \<^verbatim>\<open>percentile(100)\<close> is the maximum of the sample, and for a sample of one element
  \<^verbatim>\<open>percentile(p)\<close> is that element, for every \<open>p\<close> (so for every \<open>p\<close> in [0, 100]).
\<close>

theorem percentile_100_max_and_singleton:
  assumes "responseTimes st \<noteq> []" and "sorted (responseTimes st)"
  shows "percentile st 100 = Num (Max (set (responseTimes st)))
         \<and> (\<forall>x p. percentile (st\<lparr>responseTimes := [x]\<rparr>) p = Num x)"
  using assms percentile_100 [of st] sorted_last_Max [of "responseTimes st"]
    percentile_singleton by simp

theorem percentile_100_max_and_singleton_witness:
  "responseTimes ((new_LoadTester cli_options)\<lparr>responseTimes := [3, 8, 21]\<rparr>) \<noteq> []
   \<and> sorted (responseTimes ((new_LoadTester cli_options)\<lparr>responseTimes := [3, 8, 21]\<rparr>))
   \<and> percentile ((new_LoadTester cli_options)\<lparr>responseTimes := [3, 8, 21]\<rparr>) 100 = Num 21
   \<and> percentile ((new_LoadTester cli_options)\<lparr>responseTimes := [8]\<rparr>) 50 = Num 8"
proof -
  let ?st = "(new_LoadTester cli_options)\<lparr>responseTimes := [3, 8, 21]\<rparr>"
  have h1: "responseTimes ?st \<noteq> []" by simp
  have h2: "sorted (responseTimes ?st)" by simp
  show ?thesis
    using h1 h2 percentile_100_max_and_singleton [OF h1 h2] by simp
qed

section \<open>The weighted table and the draw\<close>

text \<open>
  C7: for every non-empty scenario list with positive weights (whose sum is the length
  of an array, here at most \<open>2 ^ 53\<close>), the weighted table is the scenarios in their
  order, each repeated \<open>weight\<close> times, so its length \<open>n\<close> is the sum of the weights and
  a scenario of a list without repetitions occurs exactly \<open>weight\<close> times. The selection
  reads the table at the index \<^verbatim>\<open>Math.floor(Math.random() * n)\<close>: for every draw \<open>u\<close> that
  is a double in [0, 1), so at most \<open>1 - 2 ^ (- 53)\<close>, the index lies inside the table.
  The index is uniform when the draw is, up to one rounding of the product: index \<open>i\<close> is
  selected for every draw from \<open>i / n\<close> to \<open>(i + 1) / n \<times> (1 - 2 ^ (- 53))\<close>, and only for
  draws from \<open>i / n \<times> (1 - 2 ^ (- 53))\<close> to below \<open>(i + 1) / n\<close>. The share of the indices
  that hold a scenario, which is the probability to draw it from a uniform index, is
  \<open>weight / \<Sum>weights\<close>.
\<close>

theorem weighted_table_uniform_selection:
  assumes "scs \<noteq> []" and "\<forall>sc\<in>set scs. 0 < weight sc"
    and "sum_list (map weight scs) \<le> 2 ^ 53"
  shows "weightedScenarios scs = concat (map (\<lambda>sc. replicate (nat (weight sc)) sc) scs)
         \<and> int (length (weightedScenarios scs)) = sum_list (map weight scs)
         \<and> (distinct scs \<longrightarrow>
              (\<forall>sc\<in>set scs. int (count_list (weightedScenarios scs) sc) = weight sc))
         \<and> (\<forall>u. 0 \<le> u \<and> u \<le> 1 - 1 / 2 ^ 53 \<longrightarrow>
              (\<exists>i<length (weightedScenarios scs).
                 selectIndex (weightedScenarios scs) u = int i
                 \<and> selectScenario (weightedScenarios scs) u = Some (weightedScenarios scs ! i)))
         \<and> (\<forall>i u. i < length (weightedScenarios scs)
                \<and> real i / real (length (weightedScenarios scs)) \<le> u
                \<and> u \<le> (real i + 1) / real (length (weightedScenarios scs)) * (1 - 1 / 2 ^ 53)
              \<longrightarrow> selectIndex (weightedScenarios scs) u = int i)
         \<and> (\<forall>i u. 0 \<le> u \<and> u \<le> 1 - 1 / 2 ^ 53
                \<and> selectIndex (weightedScenarios scs) u = int i
              \<longrightarrow> real i / real (length (weightedScenarios scs)) * (1 - 1 / 2 ^ 53) \<le> u
                  \<and> u < (real i + 1) / real (length (weightedScenarios scs)))
         \<and> (distinct scs \<longrightarrow>
              (\<forall>sc\<in>set scs.
                 real (count_list (weightedScenarios scs) sc) / real (length (weightedScenarios scs))
                 = real_of_int (weight sc) / real_of_int (sum_list (map weight scs))))"
proof -
  let ?table = "weightedScenarios scs"
  have ne: "?table \<noteq> []" using assms(1,2) by (rule weightedScenarios_nonempty)
  have len: "int (length ?table) = sum_list (map weight scs)"
    using assms(2) by (simp add: length_weightedScenarios sum_list_nat_weight)
  have "real_of_int (int (length ?table)) \<le> real_of_int (2 ^ 53)"
    using len assms(3) by (simp only: of_int_le_iff)
  then have fits: "real (length ?table) \<le> 2 ^ 53" by simp
  have cnt: "int (count_list ?table sc) = weight sc" if "distinct scs" "sc \<in> set scs" for sc
  proof -
    have "0 < weight sc" using that(2) assms(2) by blast
    then show ?thesis using that by (simp add: count_weightedScenarios)
  qed
  have sel: "\<exists>i<length ?table. selectIndex ?table u = int i
               \<and> selectScenario ?table u = Some (?table ! i)"
    if "0 \<le> u \<and> u \<le> 1 - 1 / 2 ^ 53" for u
  proof -
    from that have u: "0 \<le> u" "u \<le> 1 - 1 / 2 ^ 53" by simp_all
    have r: "0 \<le> selectIndex ?table u \<and> selectIndex ?table u < int (length ?table)"
      using ne fits u by (rule selectIndex_range)
    have s: "selectScenario ?table u = Some (?table ! nat (selectIndex ?table u))"
      using ne fits u by (rule selectScenario_in_range)
    have lt: "nat (selectIndex ?table u) < length ?table" using r by linarith
    have eq: "selectIndex ?table u = int (nat (selectIndex ?table u))" using r by simp
    show ?thesis
      using lt eq s by (intro exI [of _ "nat (selectIndex ?table u)"] conjI)
  qed
  have hits: "selectIndex ?table u = int i"
    if "i < length ?table \<and> real i / real (length ?table) \<le> u
          \<and> u \<le> (real i + 1) / real (length ?table) * (1 - 1 / 2 ^ 53)" for i u
    using fits that by (intro selectIndex_hits) simp_all
  have only: "real i / real (length ?table) * (1 - 1 / 2 ^ 53) \<le> u
                \<and> u < (real i + 1) / real (length ?table)"
    if "0 \<le> u \<and> u \<le> 1 - 1 / 2 ^ 53 \<and> selectIndex ?table u = int i" for i u
  proof -
    from that have u: "0 \<le> u" "u \<le> 1 - 1 / 2 ^ 53" and i: "selectIndex ?table u = int i"
      by simp_all
    show ?thesis
      using selectIndex_preimage [OF ne fits u i] by simp
  qed
  have frac: "real (count_list ?table sc) / real (length ?table)
                = real_of_int (weight sc) / real_of_int (sum_list (map weight scs))"
    if "distinct scs" "sc \<in> set scs" for sc
  proof -
    have "real (count_list ?table sc) = real_of_int (int (count_list ?table sc))" by simp
    also have "\<dots> = real_of_int (weight sc)" using cnt [OF that] by simp
    finally have a: "real (count_list ?table sc) = real_of_int (weight sc)" .
    have "real (length ?table) = real_of_int (int (length ?table))" by simp
    also have "\<dots> = real_of_int (sum_list (map weight scs))" using len by simp
    finally have b: "real (length ?table) = real_of_int (sum_list (map weight scs))" .
    show ?thesis by (simp only: a b)
  qed
  show ?thesis
  proof (intro conjI allI impI ballI)
    show "?table = concat (map (\<lambda>sc. replicate (nat (weight sc)) sc) scs)"
      by (rule weightedScenarios_concat)
    show "int (length ?table) = sum_list (map weight scs)" by (rule len)
  next
    fix sc assume "distinct scs" "sc \<in> set scs"
    then show "int (count_list ?table sc) = weight sc" by (rule cnt)
  next
    fix u :: real assume "0 \<le> u \<and> u \<le> 1 - 1 / 2 ^ 53"
    then show "\<exists>i<length ?table. selectIndex ?table u = int i
               \<and> selectScenario ?table u = Some (?table ! i)" by (rule sel)
  next
    fix i and u :: real
    assume "i < length ?table \<and> real i / real (length ?table) \<le> u
          \<and> u \<le> (real i + 1) / real (length ?table) * (1 - 1 / 2 ^ 53)"
    then show "selectIndex ?table u = int i" by (rule hits)
  next
    fix i and u :: real
    assume h: "0 \<le> u \<and> u \<le> 1 - 1 / 2 ^ 53 \<and> selectIndex ?table u = int i"
    show "real i / real (length ?table) * (1 - 1 / 2 ^ 53) \<le> u"
      using only [OF h] by simp
    show "u < (real i + 1) / real (length ?table)"
      using only [OF h] by simp
  next
    fix sc assume "distinct scs" "sc \<in> set scs"
    then show "real (count_list ?table sc) / real (length ?table)
                = real_of_int (weight sc) / real_of_int (sum_list (map weight scs))"
      by (rule frac)
  qed
qed

theorem weighted_table_uniform_selection_witness:
  "scenarios (1 / 2) \<noteq> []
   \<and> list_all (\<lambda>sc. 0 < weight sc) (scenarios (1 / 2))
   \<and> sum_list (map weight (scenarios (1 / 2))) \<le> 2 ^ 53
   \<and> int (length (weightedScenarios (scenarios (1 / 2)))) = 100
   \<and> int (count_list (weightedScenarios (scenarios (1 / 2)))
             \<lparr> endpoint = ''/compute'', method' = GET, weight = 15, data = None \<rparr>) = 15
   \<and> selectIndex (weightedScenarios (scenarios (1 / 2))) (3 / 8) = 37
   \<and> selectIndex (weightedScenarios (scenarios (1 / 2))) (5404319552844595 / 2 ^ 54) = 30
   \<and> selectScenario (weightedScenarios (scenarios (1 / 2))) (5404319552844595 / 2 ^ 54)
       = Some \<lparr> endpoint = ''/users/123'', method' = GET, weight = 25, data = None \<rparr>
   \<and> selectIndex (weightedScenarios (scenarios (1 / 2))) (1080863910568919 / 2 ^ 53) = 12
   \<and> 12 / 100 * (1 - 1 / 2 ^ 53) \<le> (1080863910568919 / 2 ^ 53 :: real)
   \<and> (1080863910568919 / 2 ^ 53 :: real) < 13 / 100"
proof -
  let ?table = "weightedScenarios (scenarios (1 / 2))"
  let ?u = "5404319552844595 / 2 ^ 54 :: real"
  have h1: "scenarios (1 / 2) \<noteq> []" by (simp add: scenarios_def)
  have h2: "\<forall>sc\<in>set (scenarios (1 / 2)). 0 < weight sc" by (simp add: scenarios_def)
  have s: "sum_list (map weight (scenarios (1 / 2))) = 100" by (simp add: scenarios_def)
  have h3: "sum_list (map weight (scenarios (1 / 2))) \<le> 2 ^ 53" by (simp add: s)
  have d: "distinct (scenarios (1 / 2))" by (simp add: scenarios_def)
  have m: "\<lparr> endpoint = ''/compute'', method' = GET, weight = 15, data = None \<rparr>
             \<in> set (scenarios (1 / 2))" by (simp add: scenarios_def)
  note t = weighted_table_uniform_selection [OF h1 h2 h3]
  have l: "list_all (\<lambda>sc. 0 < weight sc) (scenarios (1 / 2))"
    using h2 by (simp add: list_all_iff)
  have c: "int (count_list ?table
             \<lparr> endpoint = ''/compute'', method' = GET, weight = 15, data = None \<rparr>) = 15"
    using t [THEN conjunct2, THEN conjunct2, THEN conjunct1] d m by fastforce
  have n: "int (length ?table) = 100"
    using t [THEN conjunct2, THEN conjunct1] s by simp
  then have len: "length ?table = 100" by simp
  have i37: "selectIndex ?table (3 / 8) = int 37"
    using t [THEN conjunct2, THEN conjunct2, THEN conjunct2, THEN conjunct2, THEN conjunct1,
             rule_format, of 37 "3 / 8"] len
    by simp
  have "selectIndex ?table ?u = \<lfloor>round_double (5404319552844595 / 2 ^ 54 * 100)\<rfloor>"
    by (simp only: selectIndex_def len of_nat_numeral)
  then have i30: "selectIndex ?table ?u = 30" by (simp only: round_double_03) simp
  have "selectIndex ?table (1080863910568919 / 2 ^ 53)
          = \<lfloor>round_double (1080863910568919 / 2 ^ 53 * 100)\<rfloor>"
    by (simp only: selectIndex_def len of_nat_numeral)
  then have i12: "selectIndex ?table (1080863910568919 / 2 ^ 53) = 12"
    by (simp only: round_double_k) simp
  have hyp: "0 \<le> ?u \<and> ?u \<le> 1 - 1 / 2 ^ 53" by simp
  from t [THEN conjunct2, THEN conjunct2, THEN conjunct2, THEN conjunct1, rule_format, OF hyp]
  obtain k where k: "selectIndex ?table ?u = int k"
    and sk: "selectScenario ?table ?u = Some (?table ! k)"
    by (elim exE conjE) (rule that)
  have "k = 30" using k i30 by simp
  then have sel: "selectScenario ?table ?u = Some (?table ! 30)" using sk by simp
  have "?table ! 30 = \<lparr> endpoint = ''/users/123'', method' = GET, weight = 25, data = None \<rparr>"
    by (simp add: weightedScenarios_concat scenarios_def nth_append)
  then have u: "selectScenario ?table ?u
       = Some \<lparr> endpoint = ''/users/123'', method' = GET, weight = 25, data = None \<rparr>"
    using sel by simp
  have i37': "selectIndex ?table (3 / 8) = 37" using i37 by simp
  let ?v = "1080863910568919 / 2 ^ 53 :: real"
  have hyp': "0 \<le> ?v \<and> ?v \<le> 1 - 1 / 2 ^ 53 \<and> selectIndex ?table ?v = int 12"
    using i12 by simp
  from t [THEN conjunct2, THEN conjunct2, THEN conjunct2, THEN conjunct2, THEN conjunct2,
          THEN conjunct1, rule_format, OF hyp']
  have "real 12 / real (length ?table) * (1 - 1 / 2 ^ 53) \<le> ?v
          \<and> ?v < (real 12 + 1) / real (length ?table)" .
  then have lo: "12 / 100 * (1 - 1 / 2 ^ 53) \<le> ?v" and hi: "?v < 13 / 100"
    unfolding len by simp_all
  show ?thesis using h1 l h3 n c i37' i30 u i12 lo hi by (intro conjI)
qed

section \<open>Error rate of a phase\<close>

text \<open>
  C6: for every phase that returns a result and in which at least one request was
  dispatched: if every request succeeded, the error rate of the phase is 0; if every
  request failed (a response outside 2xx, or a rejection), the error rate is 100.
\<close>

theorem errorRate_all_success_all_failure:
  assumes "runTest st tps name env = Inr (st', r)"
    and "requestPromises (config st) tps env = Inr (run, ps)"
    and "ps \<noteq> []"
  shows "((\<forall>p\<in>set ps. succeeded p) \<longrightarrow> errorRate r = Num 0)
         \<and> ((\<forall>p\<in>set ps. failed p) \<longrightarrow> errorRate r = Num 100)"
proof -
  from runTest_InrD [OF assms(1)] assms(2)
  have ord: "sort (completion env) = [0..<length ps]" and np: "Pending \<notin> set ps"
    by simp_all
  obtain st2 r2 where "runTest st tps name env = Inr (st2, r2)"
    and "errorRate r2 = js_mul (js_div (Num (real (length (filter failed ps))))
                          (Num (real (length ps)))) (Num 100)"
    by (rule runTest_returns [OF assms(2) ord np])
  with assms(1) have rate: "errorRate r = js_mul (js_div (Num (real (length (filter failed ps))))
                          (Num (real (length ps)))) (Num 100)"
    by simp
  have n: "real (length ps) \<noteq> 0" using assms(3) by simp
  have good: "errorRate r = Num 0" if "\<forall>p\<in>set ps. succeeded p"
  proof -
    have "filter failed ps = []" using that by (auto simp: filter_empty_conv succeeded_not_failed)
    then show ?thesis using rate n by simp
  qed
  have bad: "errorRate r = Num 100" if "\<forall>p\<in>set ps. failed p"
  proof -
    have "filter failed ps = ps" using that by (simp add: filter_id_conv)
    then show ?thesis using rate n by simp
  qed
  show ?thesis using good bad by blast
qed

theorem errorRate_all_success_all_failure_witness:
  "requestPromises (config (new_LoadTester cli_options)) 5
       (two_request_env (ResponseEnd 200 12 []) (ResponseEnd 204 30 []))
     = Inr (True, [Fulfilled \<lparr> statusCode = 200, responseTime = 12, body = [], success = True \<rparr>,
                   Fulfilled \<lparr> statusCode = 204, responseTime = 30, body = [], success = True \<rparr>])
   \<and> map_sum id (\<lambda>x. errorRate (snd x))
        (runTest (new_LoadTester cli_options) 5 ''5TPS''
           (two_request_env (ResponseEnd 200 12 []) (ResponseEnd 204 30 []))) = Inr (Num 0)
   \<and> requestPromises (config (new_LoadTester cli_options)) 5
       (two_request_env (ResponseEnd 500 5 []) (RequestError ''connect ECONNREFUSED'' 2))
     = Inr (True, [Fulfilled \<lparr> statusCode = 500, responseTime = 5, body = [], success = False \<rparr>,
                   Rejected (Failure ''connect ECONNREFUSED'' 2)])
   \<and> map_sum id (\<lambda>x. errorRate (snd x))
        (runTest (new_LoadTester cli_options) 5 ''5TPS''
           (two_request_env (ResponseEnd 500 5 []) (RequestError ''connect ECONNREFUSED'' 2)))
       = Inr (Num 100)"
proof -
  let ?T = "new_LoadTester cli_options"
  let ?A = "two_request_env (ResponseEnd 200 12 []) (ResponseEnd 204 30 [])"
  let ?B = "two_request_env (ResponseEnd 500 5 []) (RequestError ''connect ECONNREFUSED'' 2)"
  let ?psA = "[Fulfilled \<lparr> statusCode = 200, responseTime = 12, body = [], success = True \<rparr>,
               Fulfilled \<lparr> statusCode = 204, responseTime = 30, body = [], success = True \<rparr>]"
  let ?psB = "[Fulfilled \<lparr> statusCode = 500, responseTime = 5, body = [], success = False \<rparr>,
               Rejected (Failure ''connect ECONNREFUSED'' 2)]"
  have rpA: "requestPromises (config ?T) 5 ?A = Inr (True, ?psA)"
    by (simp add: requestPromises_two_cli)
  have rpB: "requestPromises (config ?T) 5 ?B = Inr (True, ?psB)"
    by (simp add: requestPromises_two_cli)
  obtain sA rA where runA: "runTest ?T 5 ''5TPS'' ?A = Inr (sA, rA)"
    using runTest_two_requests_cli [of "ResponseEnd 200 12 []" "ResponseEnd 204 30 []" "''5TPS''"]
    by auto
  obtain sB rB where runB: "runTest ?T 5 ''5TPS'' ?B = Inr (sB, rB)"
    using runTest_two_requests_cli [of "ResponseEnd 500 5 []" "RequestError ''connect ECONNREFUSED'' 2"
        "''5TPS''"]
    by auto
  have "errorRate rA = Num 0"
    using errorRate_all_success_all_failure [OF runA rpA] by simp
  moreover have "errorRate rB = Num 100"
    using errorRate_all_success_all_failure [OF runB rpB] by simp
  ultimately show ?thesis using rpA rpB runA runB by simp
qed

section \<open>Every dispatched request is recorded once\<close>

text \<open>
  C8: whenever \<^verbatim>\<open>runTest\<close> returns, that is after its join, every request that the
  pacing loop dispatched has contributed exactly one entry: the recorded response times
  are the times of the dispatched requests (as a multiset, so there are as many), the
  request counter and \<^verbatim>\<open>totalRequests\<close> equal the number of dispatched requests, and
  the error count is the number of failed requests, at most that number. This holds
  whether a request succeeded, failed or was rejected by the transport. Conversely
  \<^verbatim>\<open>runTest\<close> does return once the loop has ended and every dispatched request has
  settled, and the loop ends for every clock trace that reaches the end of the phase
  (the draws of \<^verbatim>\<open>Math.random()\<close> being doubles in [0, 1), that is, at most
  \<open>1 - 2 ^ (- 53)\<close>, the largest double below 1).
\<close>

theorem every_dispatched_request_recorded_once:
  "(\<forall>st' r. runTest st tps name env = Inr (st', r) \<longrightarrow>
      (\<exists>run ps. requestPromises (config st) tps env = Inr (run, ps)
         \<and> length (responseTimes st') = length ps
         \<and> mset (responseTimes st') = mset (map recordedTime ps)
         \<and> requestCount st' = length ps
         \<and> totalRequests r = length ps
         \<and> resultErrorCount r = length (filter failed ps)
         \<and> resultErrorCount r \<le> totalRequests r))
   \<and> (\<forall>run ps. requestPromises (config st) tps env = Inr (run, ps)
         \<and> sort (completion env) = [0..<length ps] \<and> Pending \<notin> set ps \<longrightarrow>
      (\<exists>st' r. runTest st tps name env = Inr (st', r)))
   \<and> ((\<forall>t\<in>set (ticks env). 0 \<le> random_draw t \<and> random_draw t \<le> 1 - 1 / 2 ^ 53)
         \<and> (\<exists>t\<in>set (ticks env). startTime env + duration (config st) * 1000 \<le> now_cond t)
       \<longrightarrow> (\<exists>run ps. requestPromises (config st) tps env = Inr (run, ps)))"
proof (intro conjI allI impI)
  fix st' r
  assume ret: "runTest st tps name env = Inr (st', r)"
  from runTest_InrD [OF ret] obtain run ps where
    rp: "requestPromises (config st) tps env = Inr (run, ps)"
    and ord: "sort (completion env) = [0..<length ps]" and np: "Pending \<notin> set ps"
    by blast
  obtain st2 r2 where run2: "runTest st tps name env = Inr (st2, r2)"
    and st2: "st2 = st\<lparr>isRunning := run, requestCount := length ps,
               errorCount := length (filter failed ps),
               responseTimes := sort (map recordedTime ps),
               results := results st @ [r2]\<rparr>"
    and tot: "totalRequests r2 = length ps"
    and err: "resultErrorCount r2 = length (filter failed ps)"
    by (rule runTest_returns [OF rp ord np])
  from ret run2 have eq: "st' = st2" "r = r2" by simp_all
  have rts: "responseTimes st' = sort (map recordedTime ps)" using eq st2 by simp
  have "length (responseTimes st') = length ps" using rts by simp
  moreover have "mset (responseTimes st') = mset (map recordedTime ps)" using rts by simp
  moreover have "requestCount st' = length ps" using eq st2 by simp
  moreover have "totalRequests r = length ps" using eq tot by simp
  moreover have "resultErrorCount r = length (filter failed ps)" using eq err by simp
  moreover have "resultErrorCount r \<le> totalRequests r" using eq err tot by simp
  ultimately show "\<exists>run ps. requestPromises (config st) tps env = Inr (run, ps)
         \<and> length (responseTimes st') = length ps
         \<and> mset (responseTimes st') = mset (map recordedTime ps)
         \<and> requestCount st' = length ps
         \<and> totalRequests r = length ps
         \<and> resultErrorCount r = length (filter failed ps)
         \<and> resultErrorCount r \<le> totalRequests r"
    using rp by blast
next
  fix run ps
  assume h: "requestPromises (config st) tps env = Inr (run, ps)
         \<and> sort (completion env) = [0..<length ps] \<and> Pending \<notin> set ps"
  then have rp: "requestPromises (config st) tps env = Inr (run, ps)"
    and ord: "sort (completion env) = [0..<length ps]" and np: "Pending \<notin> set ps"
    by simp_all
  show "\<exists>st' r. runTest st tps name env = Inr (st', r)"
    by (rule runTest_returns [OF rp ord np]) blast
next
  assume "(\<forall>t\<in>set (ticks env). 0 \<le> random_draw t \<and> random_draw t \<le> 1 - 1 / 2 ^ 53)
         \<and> (\<exists>t\<in>set (ticks env). startTime env + duration (config st) * 1000 \<le> now_cond t)"
  then show "\<exists>run ps. requestPromises (config st) tps env = Inr (run, ps)"
    by (intro requestPromises_returns) simp_all
qed

theorem every_dispatched_request_recorded_once_witness:
  "requestPromises (config (new_LoadTester cli_options)) 5
       (two_request_env (ResponseEnd 200 12 []) (ExecutorThrows ''Invalid URL''))
     = Inr (True, [Fulfilled \<lparr> statusCode = 200, responseTime = 12, body = [], success = True \<rparr>,
                   Rejected (Thrown ''Invalid URL'')])
   \<and> list_all (\<lambda>t. 0 \<le> random_draw t \<and> random_draw t \<le> 1 - 1 / 2 ^ 53)
        (ticks (two_request_env (ResponseEnd 200 12 []) (ExecutorThrows ''Invalid URL'')))
   \<and> list_ex (\<lambda>t. 1000 + 60 * 1000 \<le> now_cond t)
        (ticks (two_request_env (ResponseEnd 200 12 []) (ExecutorThrows ''Invalid URL'')))
   \<and> map_sum id
        (\<lambda>x. (length (responseTimes (fst x)), requestCount (fst x), totalRequests (snd x),
              resultErrorCount (snd x)))
        (runTest (new_LoadTester cli_options) 5 ''5TPS''
           (two_request_env (ResponseEnd 200 12 []) (ExecutorThrows ''Invalid URL'')))
       = Inr (2, 2, 2, 1)"
proof -
  let ?T = "new_LoadTester cli_options"
  let ?E = "two_request_env (ResponseEnd 200 12 []) (ExecutorThrows ''Invalid URL'')"
  let ?ps = "[Fulfilled \<lparr> statusCode = 200, responseTime = 12, body = [], success = True \<rparr>,
              Rejected (Thrown ''Invalid URL'')]"
  have rp: "requestPromises (config ?T) 5 ?E = Inr (True, ?ps)"
    by (simp add: requestPromises_two_cli)
  have ord: "sort (completion ?E) = [0..<length ?ps]"
    by (simp add: two_request_env_def upt_rec)
  have np: "Pending \<notin> set ?ps" by simp
  note c8 = every_dispatched_request_recorded_once [of ?T 5 "''5TPS''" ?E]
  have draws: "\<forall>t\<in>set (ticks ?E). 0 \<le> random_draw t \<and> random_draw t \<le> 1 - 1 / 2 ^ 53"
    by (simp add: two_request_env_def)
  have ends: "\<exists>t\<in>set (ticks ?E). startTime ?E + duration (config ?T) * 1000 \<le> now_cond t"
    by (simp add: two_request_env_def new_LoadTester_def cli_options_def)
  have "\<exists>run ps. requestPromises (config ?T) 5 ?E = Inr (run, ps)"
    using c8 [THEN conjunct2, THEN conjunct2] draws ends by blast
  then have "\<exists>st' r. runTest ?T 5 ''5TPS'' ?E = Inr (st', r)"
    using c8 [THEN conjunct2, THEN conjunct1, rule_format, of True ?ps] rp ord np by blast
  then obtain st' r where ret: "runTest ?T 5 ''5TPS'' ?E = Inr (st', r)" by blast
  then have "\<exists>run ps. requestPromises (config ?T) 5 ?E = Inr (run, ps)
         \<and> length (responseTimes st') = length ps
         \<and> mset (responseTimes st') = mset (map recordedTime ps)
         \<and> requestCount st' = length ps
         \<and> totalRequests r = length ps
         \<and> resultErrorCount r = length (filter failed ps)
         \<and> resultErrorCount r \<le> totalRequests r"
    using c8 [THEN conjunct1, rule_format, of st' r] by blast
  then have "length (responseTimes st') = 2 \<and> requestCount st' = 2 \<and> totalRequests r = 2
      \<and> resultErrorCount r = 1"
    using rp by auto
  moreover have "list_all (\<lambda>t. 0 \<le> random_draw t \<and> random_draw t \<le> 1 - 1 / 2 ^ 53) (ticks ?E)"
    by (simp add: two_request_env_def)
  moreover have "list_ex (\<lambda>t. 1000 + 60 * 1000 \<le> now_cond t) (ticks ?E)"
    by (simp add: two_request_env_def)
  ultimately show ?thesis using rp ret by simp
qed

section \<open>Failures without a response time\<close>

text \<open>
  C10: if a dispatched request is rejected and the rejection carries no \<^verbatim>\<open>responseTime\<close>
  or the value 0, the handler of \<^verbatim>\<open>runTest\<close> records the response time 0 for it. The
  phase then has 0 among its response times, and when no recorded time is negative, 0
  is the minimum response time of the phase (the witness shows a phase whose only
  response took 12 ms and whose median is nevertheless 0).
\<close>

theorem rejection_without_time_recorded_as_zero:
  assumes "requestPromises (config st) tps env = Inr (run, ps)"
    and "sort (completion env) = [0..<length ps]"
    and "Pending \<notin> set ps"
    and "Rejected err \<in> set ps"
    and "rej_responseTime err = None \<or> rej_responseTime err = Some 0"
  shows "onSettled s (Rejected err)
           = Inr (s\<lparr>requestCount := requestCount s + 1, errorCount := errorCount s + 1,
                     responseTimes := responseTimes s @ [0]\<rparr>)
         \<and> (\<exists>st' r. runTest st tps name env = Inr (st', r)
               \<and> 0 \<in> set (responseTimes st')
               \<and> ((\<forall>p\<in>set ps. 0 \<le> recordedTime p) \<longrightarrow> minResponseTime r = Num 0))"
proof -
  have zero: "recordedTime (Rejected err) = 0" using assms(5) by auto
  have cb: "onSettled s (Rejected err)
           = Inr (s\<lparr>requestCount := requestCount s + 1, errorCount := errorCount s + 1,
                     responseTimes := responseTimes s @ [0]\<rparr>)"
    using zero by (simp add: Let_def)
  obtain st' r where ret: "runTest st tps name env = Inr (st', r)"
    and st': "st' = st\<lparr>isRunning := run, requestCount := length ps,
               errorCount := length (filter failed ps),
               responseTimes := sort (map recordedTime ps),
               results := results st @ [r]\<rparr>"
    and mn: "minResponseTime r = minResponseTime (calculateStats st')"
    by (rule runTest_returns [OF assms(1,2,3)])
  have rts: "responseTimes st' = sort (map recordedTime ps)" using st' by simp
  have "recordedTime (Rejected err) \<in> set (map recordedTime ps)"
    using assms(4) by (simp only: set_map) (rule imageI)
  then have mem: "0 \<in> set (responseTimes st')" using zero rts by simp
  have min0: "minResponseTime r = Num 0" if nonneg: "\<forall>p\<in>set ps. 0 \<le> recordedTime p"
  proof -
    have ne: "responseTimes st' \<noteq> []" using mem by auto
    have "\<forall>x\<in>set (responseTimes st'). 0 \<le> x" using nonneg rts by auto
    moreover have "sorted (responseTimes st')" using rts by simp
    ultimately have "responseTimes st' ! 0 = 0" using mem by (intro sorted_hd_zero) auto
    then show ?thesis using mn ne by (simp add: calculateStats_def js_nth_def)
  qed
  show ?thesis using cb ret mem min0 by blast
qed

theorem rejection_without_time_recorded_as_zero_witness:
  "requestPromises (config (new_LoadTester cli_options)) 5
       (two_request_env (ResponseEnd 200 12 []) (ExecutorThrows ''Invalid URL''))
     = Inr (True, [Fulfilled \<lparr> statusCode = 200, responseTime = 12, body = [], success = True \<rparr>,
                   Rejected (Thrown ''Invalid URL'')])
   \<and> rej_responseTime (Thrown ''Invalid URL'') = None
   \<and> map_sum id (\<lambda>x. minResponseTime (snd x))
        (runTest (new_LoadTester cli_options) 5 ''5TPS''
           (two_request_env (ResponseEnd 200 12 []) (ExecutorThrows ''Invalid URL'')))
       = Inr (Num 0)
   \<and> map_sum id (\<lambda>x. (responseTimes (fst x), p50ResponseTime (snd x)))
        (runTest (new_LoadTester cli_options) 5 ''5TPS''
           (two_request_env (ResponseEnd 200 12 []) (ExecutorThrows ''Invalid URL'')))
       = Inr ([0, 12], Num 0)"
proof -
  let ?T = "new_LoadTester cli_options"
  let ?E = "two_request_env (ResponseEnd 200 12 []) (ExecutorThrows ''Invalid URL'')"
  let ?ps = "[Fulfilled \<lparr> statusCode = 200, responseTime = 12, body = [], success = True \<rparr>,
              Rejected (Thrown ''Invalid URL'')]"
  have rp: "requestPromises (config ?T) 5 ?E = Inr (True, ?ps)"
    by (simp add: requestPromises_two_cli)
  have ord: "sort (completion ?E) = [0..<length ?ps]"
    by (simp add: two_request_env_def upt_rec)
  have np: "Pending \<notin> set ?ps" by simp
  have mem: "Rejected (Thrown ''Invalid URL'') \<in> set ?ps" by simp
  have none: "rej_responseTime (Thrown ''Invalid URL'') = None
                \<or> rej_responseTime (Thrown ''Invalid URL'') = Some 0" by simp
  have nonneg: "\<forall>p\<in>set ?ps. 0 \<le> recordedTime p" by simp
  from rejection_without_time_recorded_as_zero [OF rp ord np mem none, of ?T "''5TPS''"]
  obtain st' r where "runTest ?T 5 ''5TPS'' ?E = Inr (st', r)"
    and "(\<forall>p\<in>set ?ps. 0 \<le> recordedTime p) \<longrightarrow> minResponseTime r = Num 0"
    by blast
  then have a: "runTest ?T 5 ''5TPS'' ?E = Inr (st', r)" and b: "minResponseTime r = Num 0"
    using nonneg by blast+
  have m: "map_sum id (\<lambda>x. minResponseTime (snd x)) (runTest ?T 5 ''5TPS'' ?E) = Inr (Num 0)"
    using a b by simp
  have v: "map_sum id (\<lambda>x. (responseTimes (fst x), p50ResponseTime (snd x)))
             (runTest ?T 5 ''5TPS'' ?E) = Inr ([0, 12], Num 0)"
    by (simp add: runTest_mixed_value)
  show ?thesis using rp m v by simp
qed


section \<open>Phases without requests, phases without a reachable target\<close>

text \<open>
  C3, as the specification states it: a phase that completes without having dispatched a
  request has the error rate 100. In a tester whose phases last no time the loop of
  \<^verbatim>\<open>runTest\<close> ends before its first pass; the error rate is \<^verbatim>\<open>0 / 0 * 100\<close>, which is
  \<^verbatim>\<open>NaN\<close> and not 100.
\<close>

theorem empty_phase_errorRate_not_100:
  "requestPromises (config (new_LoadTester zero_duration_options)) 5 idle_env = Inr (True, [])
   \<and> map_sum id (\<lambda>x. errorRate (snd x))
        (runTest (new_LoadTester zero_duration_options) 5 ''5TPS'' idle_env) = Inr NaN
   \<and> NaN \<noteq> Num 100"
  by (simp add: runTest_unfold requestPromises_idle completion_idle Let_def)

text \<open>
  C3, amended: a phase in which every dispatched request failed, as when the target is
  unreachable for the whole phase, and also a phase that completes having dispatched no
  request at all, still produces a result record, appended to the results, with
  \<^verbatim>\<open>totalRequests\<close> and \<^verbatim>\<open>errorCount\<close> equal to the number of dispatched requests. The
  error rate is 100 when at least one request was dispatched; when none was, the six
  response time statistics are 0. In both cases the sweep goes on with the next phase.
\<close>

theorem failed_or_empty_phase_reports_and_sweep_continues:
  assumes "requestPromises (config st) (real tps) (envs i) = Inr (run, ps)"
    and "sort (completion (envs i)) = [0..<length ps]"
    and "\<forall>p\<in>set ps. failed p"
  shows "\<exists>st' r. runTest st (real tps) (show_nat tps @ ''TPS'') (envs i) = Inr (st', r)
           \<and> results st' = results st @ [r]
           \<and> totalRequests r = length ps \<and> resultErrorCount r = length ps
           \<and> (ps \<noteq> [] \<longrightarrow> errorRate r = Num 100)
           \<and> (ps = [] \<longrightarrow>
                avgResponseTime r = Num 0 \<and> minResponseTime r = Num 0
                \<and> maxResponseTime r = Num 0 \<and> p50ResponseTime r = Num 0
                \<and> p95ResponseTime r = Num 0 \<and> p99ResponseTime r = Num 0)
           \<and> sweep st (tps # rest) i envs = sweep st' rest (Suc i) envs"
proof -
  have np: "Pending \<notin> set ps" using assms(3) by auto
  have all: "filter failed ps = ps" using assms(3) by (simp add: filter_id_conv)
  obtain st' r where ret: "runTest st (real tps) (show_nat tps @ ''TPS'') (envs i) = Inr (st', r)"
    and st': "st' = st\<lparr>isRunning := run, requestCount := length ps,
               errorCount := length (filter failed ps),
               responseTimes := sort (map recordedTime ps),
               results := results st @ [r]\<rparr>"
    and tot: "totalRequests r = length ps"
    and err: "resultErrorCount r = length (filter failed ps)"
    and rate: "errorRate r = js_mul (js_div (Num (real (length (filter failed ps))))
                     (Num (real (length ps)))) (Num 100)"
    and stats: "avgResponseTime r = avgResponseTime (calculateStats st')"
      "minResponseTime r = minResponseTime (calculateStats st')"
      "maxResponseTime r = maxResponseTime (calculateStats st')"
      "p50ResponseTime r = p50ResponseTime (calculateStats st')"
      "p95ResponseTime r = p95ResponseTime (calculateStats st')"
      "p99ResponseTime r = p99ResponseTime (calculateStats st')"
    by (rule runTest_returns [OF assms(1,2) np])
  have res: "results st' = results st @ [r]" using st' by simp
  have hundred: "errorRate r = Num 100" if "ps \<noteq> []"
    using that rate all by simp
  have zeros: "avgResponseTime r = Num 0 \<and> minResponseTime r = Num 0
                \<and> maxResponseTime r = Num 0 \<and> p50ResponseTime r = Num 0
                \<and> p95ResponseTime r = Num 0 \<and> p99ResponseTime r = Num 0" if "ps = []"
  proof -
    have "responseTimes st' = []" using that st' by simp
    then show ?thesis using stats by (simp add: calculateStats_empty)
  qed
  have next_phase: "sweep st (tps # rest) i envs = sweep st' rest (Suc i) envs"
    using ret by simp
  show ?thesis using ret res tot err all hundred zeros next_phase by auto
qed

theorem failed_or_empty_phase_reports_and_sweep_continues_witness:
  "requestPromises (config (new_LoadTester zero_duration_options)) (real 5) idle_env
     = Inr (True, [])
   \<and> sort (completion idle_env) = [0..<length ([] :: request_promise list)]
   \<and> list_all failed []
   \<and> (\<exists>st' r. runTest (new_LoadTester zero_duration_options) (real 5) (show_nat 5 @ ''TPS'')
                  idle_env = Inr (st', r)
          \<and> results st' = [r] \<and> totalRequests r = 0 \<and> avgResponseTime r = Num 0
          \<and> sweep (new_LoadTester zero_duration_options) [5, 10] 0 (\<lambda>k. idle_env)
              = sweep st' [10] 1 (\<lambda>k. idle_env))
   \<and> requestPromises (config (new_LoadTester cli_options)) (real 5)
        (two_request_env (RequestError ''connect ECONNREFUSED'' 2)
           (RequestError ''connect ECONNREFUSED'' 1))
     = Inr (True, [Rejected (Failure ''connect ECONNREFUSED'' 2),
                   Rejected (Failure ''connect ECONNREFUSED'' 1)])
   \<and> list_all failed [Rejected (Failure ''connect ECONNREFUSED'' 2),
                       Rejected (Failure ''connect ECONNREFUSED'' 1)]
   \<and> (\<exists>st' r. runTest (new_LoadTester cli_options) (real 5) (show_nat 5 @ ''TPS'')
                  (two_request_env (RequestError ''connect ECONNREFUSED'' 2)
                     (RequestError ''connect ECONNREFUSED'' 1)) = Inr (st', r)
          \<and> totalRequests r = 2 \<and> resultErrorCount r = 2 \<and> errorRate r = Num 100)"
proof -
  let ?Z = "new_LoadTester zero_duration_options"
  let ?T = "new_LoadTester cli_options"
  let ?E = "two_request_env (RequestError ''connect ECONNREFUSED'' 2)
              (RequestError ''connect ECONNREFUSED'' 1)"
  let ?ps = "[Rejected (Failure ''connect ECONNREFUSED'' 2),
              Rejected (Failure ''connect ECONNREFUSED'' 1)]"
  have rpZ: "requestPromises (config ?Z) (real 5) idle_env = Inr (True, [])"
    by (simp add: requestPromises_idle)
  have ordZ: "sort (completion idle_env) = [0..<length ([] :: request_promise list)]"
    by (simp add: completion_idle)
  have allZ: "\<forall>p\<in>set ([] :: request_promise list). failed p" by simp
  have rz: "results ?Z = []" by (simp add: new_LoadTester_def)
  from failed_or_empty_phase_reports_and_sweep_continues
         [where envs = "\<lambda>k :: nat. idle_env" and i = 0 and rest = "[10]", OF rpZ ordZ allZ]
  obtain sz r0 where
    "runTest ?Z (real 5) (show_nat 5 @ ''TPS'') idle_env = Inr (sz, r0)"
    "results sz = results ?Z @ [r0]" "totalRequests r0 = length ([] :: request_promise list)"
    "avgResponseTime r0 = Num 0"
    "sweep ?Z [5, 10] 0 (\<lambda>k. idle_env) = sweep sz [10] (Suc 0) (\<lambda>k. idle_env)"
    by (elim exE conjE) (rule that; auto)
  then have partZ: "\<exists>st' r. runTest ?Z (real 5) (show_nat 5 @ ''TPS'') idle_env = Inr (st', r)
          \<and> results st' = [r] \<and> totalRequests r = 0 \<and> avgResponseTime r = Num 0
          \<and> sweep ?Z [5, 10] 0 (\<lambda>k. idle_env) = sweep st' [10] 1 (\<lambda>k. idle_env)"
    using rz by (intro exI [of _ sz] exI [of _ r0]) simp
  have rpT: "requestPromises (config ?T) (real 5) ?E = Inr (True, ?ps)"
    by (simp add: requestPromises_two_cli)
  have ordT: "sort (completion ?E) = [0..<length ?ps]"
    by (simp add: two_request_env_def upt_rec)
  have allT: "\<forall>p\<in>set ?ps. failed p" by simp
  have ne: "?ps \<noteq> []" by simp
  from failed_or_empty_phase_reports_and_sweep_continues
         [where envs = "\<lambda>k :: nat. ?E" and i = 0 and rest = "[]", OF rpT ordT allT]
  obtain st1 r1 where
    "runTest ?T (real 5) (show_nat 5 @ ''TPS'') ?E = Inr (st1, r1)"
    "totalRequests r1 = length ?ps" "resultErrorCount r1 = length ?ps"
    "?ps \<noteq> [] \<longrightarrow> errorRate r1 = Num 100"
    by (elim exE conjE) (rule that; auto)
  then have partT: "\<exists>st' r. runTest ?T (real 5) (show_nat 5 @ ''TPS'') ?E = Inr (st', r)
          \<and> totalRequests r = 2 \<and> resultErrorCount r = 2 \<and> errorRate r = Num 100"
    using ne by (intro exI [of _ st1] exI [of _ r1]) simp
  have lz: "list_all failed ([] :: request_promise list)" by simp
  have lt: "list_all failed ?ps" by simp
  show ?thesis
    using rpZ ordZ lz partZ rpT lt partT by (intro conjI)
qed

section \<open>The empty phase\<close>

text \<open>
  C4: when no result was collected, the six response time statistics are 0 and nothing
  is raised, but the error rate of the phase is not 0: \<^verbatim>\<open>calculateStats\<close> guards the
  empty collection, the division \<^verbatim>\<open>errorCount / requestCount\<close> in \<^verbatim>\<open>runTest\<close> does not,
  and yields \<^verbatim>\<open>NaN\<close>.
\<close>

theorem empty_phase_errorRate_is_NaN:
  "map_sum id
     (\<lambda>x. (totalRequests (snd x),
           [avgResponseTime (snd x), minResponseTime (snd x), maxResponseTime (snd x),
            p50ResponseTime (snd x), p95ResponseTime (snd x), p99ResponseTime (snd x)],
           errorRate (snd x)))
     (runTest (new_LoadTester zero_duration_options) 10 ''10TPS'' idle_env)
   = Inr (0, [Num 0, Num 0, Num 0, Num 0, Num 0, Num 0], NaN)"
  by (simp add: runTest_unfold requestPromises_idle completion_idle Let_def calculateStats_def)

section \<open>The sweep\<close>

text \<open>
  C9: when \<^verbatim>\<open>runFullBenchmark\<close> returns, the warmup has left the tester unchanged (it
  adds no result), and the results are those the tester held before, followed by exactly
  one result for each rate of the sweep, in the order of the sweep, which is ascending.
  The result of phase \<open>k\<close> is the result that \<^verbatim>\<open>runTest\<close> returns for that rate and that
  phase's environment from any tester of the same configuration, whatever its counters,
  response times and results, in particular from a new one: the counters are reset when
  a phase starts and nothing of the warmup or of an earlier phase enters a result.
  The warmup returns, with its own counts and the tester as it was, once its loop has
  ended and every request it dispatched has settled, and its loop ends for every clock
  trace that reaches the end of the warmup; \<^verbatim>\<open>runFullBenchmark\<close> then returns once the
  loop of every phase has ended and every dispatched request has settled.
\<close>

theorem sweep_results_in_order_without_leakage:
  "(\<forall>st' rs. runFullBenchmark st url warmup_env envs = Inr (st', rs) \<longrightarrow>
      (\<exists>report new.
           runWarmup (st\<lparr>config := (config st)\<lparr>baseUrl := url\<rparr>\<rparr>) warmup_env
             = Inr (st\<lparr>config := (config st)\<lparr>baseUrl := url\<rparr>\<rparr>, report)
           \<and> rs = results st' \<and> rs = results st @ new
           \<and> config st' = (config st)\<lparr>baseUrl := url\<rparr>
           \<and> length new = length tpsLevels
           \<and> map targetTPS new = [5, 10, 15, 30, 40, 100, 1000]
           \<and> sorted (map targetTPS new)
           \<and> (\<forall>k<length tpsLevels. \<forall>fresh. config fresh = (config st)\<lparr>baseUrl := url\<rparr> \<longrightarrow>
                 map_sum id snd
                   (runTest fresh (real (tpsLevels ! k)) (show_nat (tpsLevels ! k) @ ''TPS'')
                      (envs k))
                 = Inr (new ! k))))
   \<and> (\<forall>wps. warmupPromises ((config st)\<lparr>baseUrl := url\<rparr>) warmup_env = Inr wps
          \<and> sort (completion warmup_env) = [0..<length wps] \<and> Pending \<notin> set wps \<longrightarrow>
        runWarmup (st\<lparr>config := (config st)\<lparr>baseUrl := url\<rparr>\<rparr>) warmup_env
          = Inr (st\<lparr>config := (config st)\<lparr>baseUrl := url\<rparr>\<rparr>,
                 \<lparr> warmupTotal = length wps,
                   actualWarmupTPS =
                     js_div (Num (real (length wps))) (Num (warmupDuration (config st))),
                   warmupErrorRate =
                     js_mul (js_div (Num (real (length (filter failed wps))))
                               (Num (real (length wps)))) (Num 100) \<rparr>)
        \<and> ((\<forall>k<length tpsLevels. \<exists>run ps.
                requestPromises ((config st)\<lparr>baseUrl := url\<rparr>) (real (tpsLevels ! k)) (envs k)
                  = Inr (run, ps)
                \<and> sort (completion (envs k)) = [0..<length ps] \<and> Pending \<notin> set ps)
             \<longrightarrow> (\<exists>st' rs. runFullBenchmark st url warmup_env envs = Inr (st', rs))))
   \<and> ((\<forall>t\<in>set (ticks warmup_env). 0 \<le> random_draw t \<and> random_draw t \<le> 1 - 1 / 2 ^ 53)
         \<and> (\<exists>t\<in>set (ticks warmup_env).
                startTime warmup_env + warmupDuration (config st) * 1000 \<le> now_cond t)
       \<longrightarrow> (\<exists>wps. warmupPromises ((config st)\<lparr>baseUrl := url\<rparr>) warmup_env = Inr wps))"
proof -
  let ?cfg = "(config st)\<lparr>baseUrl := url\<rparr>"
  let ?S = "st\<lparr>config := ?cfg\<rparr>"
  have returned: "\<exists>report new.
           runWarmup ?S warmup_env = Inr (?S, report)
           \<and> rs = results st' \<and> rs = results st @ new
           \<and> config st' = ?cfg
           \<and> length new = length tpsLevels
           \<and> map targetTPS new = [5, 10, 15, 30, 40, 100, 1000]
           \<and> sorted (map targetTPS new)
           \<and> (\<forall>k<length tpsLevels. \<forall>fresh. config fresh = ?cfg \<longrightarrow>
                 map_sum id snd
                   (runTest fresh (real (tpsLevels ! k)) (show_nat (tpsLevels ! k) @ ''TPS'')
                      (envs k))
                 = Inr (new ! k))"
    if assms: "runFullBenchmark st url warmup_env envs = Inr (st', rs)" for st' rs
  proof -
    let ?st0 = "st\<lparr>config := (config st)\<lparr>baseUrl := url\<rparr>\<rparr>"
    from assms obtain st1 report st2 where
      w: "runWarmup ?st0 warmup_env = Inr (st1, report)"
      and sw: "sweep st1 tpsLevels 0 envs = Inr st2"
      and rs: "rs = results st2" and fin: "st' = st2"
      by (auto simp: runFullBenchmark_def Let_def split: sum.splits prod.splits)
    have st1: "st1 = ?st0" using w by (rule runWarmup_leaves_tester)
    from sweep_appends [OF sw] obtain new where
      c2: "config st2 = config st1"
      and res: "results st2 = results st1 @ new"
      and len: "length new = length tpsLevels"
      and tps: "map targetTPS new = map real tpsLevels"
      and each: "\<forall>k<length tpsLevels. \<forall>s. config s = config st1 \<longrightarrow>
                   map_sum id snd
                     (runTest s (real (tpsLevels ! k)) (show_nat (tpsLevels ! k) @ ''TPS'')
                        (envs (0 + k)))
                   = Inr (new ! k)"
      by blast
    have order: "map targetTPS new = [5, 10, 15, 30, 40, 100, 1000]"
      using tps by (simp add: tpsLevels_def)
    have srt: "sorted (map targetTPS new)" unfolding order by simp
    have app: "rs = results st @ new" using rs res st1 by simp
    have wu: "runWarmup ?st0 warmup_env = Inr (?st0, report)" using w st1 by simp
    have cfg: "config st1 = (config st)\<lparr>baseUrl := url\<rparr>" using st1 by simp
    show ?thesis
    proof (intro exI [of _ report] exI [of _ new] conjI allI impI)
      show "runWarmup ?st0 warmup_env = Inr (?st0, report)" by (rule wu)
      show "rs = results st'" using rs fin by simp
      show "rs = results st @ new" by (rule app)
      show "config st' = (config st)\<lparr>baseUrl := url\<rparr>" using fin c2 cfg by simp
      show "length new = length tpsLevels" by (rule len)
      show "map targetTPS new = [5, 10, 15, 30, 40, 100, 1000]" by (rule order)
      show "sorted (map targetTPS new)" by (rule srt)
      fix k and fresh :: LoadTester
      assume k: "k < length tpsLevels" and f: "config fresh = (config st)\<lparr>baseUrl := url\<rparr>"
      have "config fresh = config st1" using f cfg by simp
      with each k have "map_sum id snd
              (runTest fresh (real (tpsLevels ! k)) (show_nat (tpsLevels ! k) @ ''TPS'')
                 (envs (0 + k))) = Inr (new ! k)"
        by blast
      then show "map_sum id snd
              (runTest fresh (real (tpsLevels ! k)) (show_nat (tpsLevels ! k) @ ''TPS'') (envs k))
            = Inr (new ! k)"
        by simp
    qed
  qed
  have warm: "runWarmup ?S warmup_env
          = Inr (?S, \<lparr> warmupTotal = length wps,
                   actualWarmupTPS =
                     js_div (Num (real (length wps))) (Num (warmupDuration (config st))),
                   warmupErrorRate =
                     js_mul (js_div (Num (real (length (filter failed wps))))
                               (Num (real (length wps)))) (Num 100) \<rparr>)"
    if "warmupPromises ?cfg warmup_env = Inr wps"
      "sort (completion warmup_env) = [0..<length wps]" "Pending \<notin> set wps" for wps
    using runWarmup_returns [of ?S warmup_env wps] that by simp
  have total: "\<exists>st' rs. runFullBenchmark st url warmup_env envs = Inr (st', rs)"
    if w: "warmupPromises ?cfg warmup_env = Inr wps"
      "sort (completion warmup_env) = [0..<length wps]" "Pending \<notin> set wps"
    and phases: "\<forall>k<length tpsLevels. \<exists>run ps.
                requestPromises ?cfg (real (tpsLevels ! k)) (envs k) = Inr (run, ps)
                \<and> sort (completion (envs k)) = [0..<length ps] \<and> Pending \<notin> set ps" for wps
  proof -
    have "\<forall>k<length tpsLevels. \<exists>run ps.
             requestPromises (config ?S) (real (tpsLevels ! k)) (envs (0 + k)) = Inr (run, ps)
             \<and> sort (completion (envs (0 + k))) = [0..<length ps] \<and> Pending \<notin> set ps"
      using phases by simp
    then obtain st2 where "sweep ?S tpsLevels 0 envs = Inr st2"
      using sweep_returns by blast
    then show ?thesis
      using warm [OF w] by (simp add: runFullBenchmark_def Let_def)
  qed
  have loop: "\<exists>wps. warmupPromises ?cfg warmup_env = Inr wps"
    if "(\<forall>t\<in>set (ticks warmup_env). 0 \<le> random_draw t \<and> random_draw t \<le> 1 - 1 / 2 ^ 53)
         \<and> (\<exists>t\<in>set (ticks warmup_env).
                startTime warmup_env + warmupDuration (config st) * 1000 \<le> now_cond t)"
    using that by (intro warmupPromises_returns) simp_all
  show ?thesis
  proof (intro conjI allI impI)
    fix st' rs
    assume "runFullBenchmark st url warmup_env envs = Inr (st', rs)"
    then show "\<exists>report new.
           runWarmup ?S warmup_env = Inr (?S, report)
           \<and> rs = results st' \<and> rs = results st @ new
           \<and> config st' = ?cfg
           \<and> length new = length tpsLevels
           \<and> map targetTPS new = [5, 10, 15, 30, 40, 100, 1000]
           \<and> sorted (map targetTPS new)
           \<and> (\<forall>k<length tpsLevels. \<forall>fresh. config fresh = ?cfg \<longrightarrow>
                 map_sum id snd
                   (runTest fresh (real (tpsLevels ! k)) (show_nat (tpsLevels ! k) @ ''TPS'')
                      (envs k))
                 = Inr (new ! k))"
      by (rule returned)
  next
    fix wps
    assume h: "warmupPromises ?cfg warmup_env = Inr wps
          \<and> sort (completion warmup_env) = [0..<length wps] \<and> Pending \<notin> set wps"
    then show "runWarmup ?S warmup_env
          = Inr (?S, \<lparr> warmupTotal = length wps,
                   actualWarmupTPS =
                     js_div (Num (real (length wps))) (Num (warmupDuration (config st))),
                   warmupErrorRate =
                     js_mul (js_div (Num (real (length (filter failed wps))))
                               (Num (real (length wps)))) (Num 100) \<rparr>)"
      by (intro warm) simp_all
    assume "\<forall>k<length tpsLevels. \<exists>run ps.
                requestPromises ?cfg (real (tpsLevels ! k)) (envs k) = Inr (run, ps)
                \<and> sort (completion (envs k)) = [0..<length ps] \<and> Pending \<notin> set ps"
    with h show "\<exists>st' rs. runFullBenchmark st url warmup_env envs = Inr (st', rs)"
      by (intro total [of wps]) simp_all
  next
    assume "(\<forall>t\<in>set (ticks warmup_env). 0 \<le> random_draw t \<and> random_draw t \<le> 1 - 1 / 2 ^ 53)
         \<and> (\<exists>t\<in>set (ticks warmup_env).
                startTime warmup_env + warmupDuration (config st) * 1000 \<le> now_cond t)"
    then show "\<exists>wps. warmupPromises ?cfg warmup_env = Inr wps" by (rule loop)
  qed
qed

theorem sweep_results_in_order_without_leakage_witness:
  "warmupPromises ((config (new_LoadTester cli_options))\<lparr>baseUrl := ''http://localhost:3000''\<rparr>)
       (two_request_warmup_env (ResponseEnd 200 3 []) (RequestError ''socket hang up'' 5))
     = Inr [Fulfilled \<lparr> statusCode = 200, responseTime = 3, body = [], success = True \<rparr>,
            Rejected (Failure ''socket hang up'' 5)]
   \<and> list_all (\<lambda>t. 0 \<le> random_draw t \<and> random_draw t \<le> 1 - 1 / 2 ^ 53)
        (ticks (two_request_warmup_env (ResponseEnd 200 3 [])
                  (RequestError ''socket hang up'' 5)))
   \<and> list_ex (\<lambda>t. 1000 + 180 * 1000 \<le> now_cond t)
        (ticks (two_request_warmup_env (ResponseEnd 200 3 [])
                  (RequestError ''socket hang up'' 5)))
   \<and> map_sum id snd
       (runWarmup ((new_LoadTester cli_options)
                     \<lparr>config := (config (new_LoadTester cli_options))
                                 \<lparr>baseUrl := ''http://localhost:3000''\<rparr>\<rparr>)
          (two_request_warmup_env (ResponseEnd 200 3 []) (RequestError ''socket hang up'' 5)))
     = Inr \<lparr> warmupTotal = 2, actualWarmupTPS = Num (1 / 90), warmupErrorRate = Num 50 \<rparr>
   \<and> (\<exists>st' rs. runFullBenchmark (new_LoadTester cli_options) ''http://localhost:3000''
           (two_request_warmup_env (ResponseEnd 200 3 []) (RequestError ''socket hang up'' 5))
           (\<lambda>k. two_request_env (ResponseEnd 200 12 []) (ResponseEnd 500 30 [])) = Inr (st', rs)
         \<and> length rs = 7
         \<and> map targetTPS rs = [5, 10, 15, 30, 40, 100, 1000]
         \<and> totalRequests (rs ! 6) = 2 \<and> resultErrorCount (rs ! 6) = 1)"
proof -
  let ?T = "new_LoadTester cli_options"
  let ?url = "''http://localhost:3000''"
  let ?cfg = "(config ?T)\<lparr>baseUrl := ?url\<rparr>"
  let ?S = "?T\<lparr>config := ?cfg\<rparr>"
  let ?A = "ResponseEnd 200 12 []"
  let ?B = "ResponseEnd 500 30 []"
  let ?W = "two_request_warmup_env (ResponseEnd 200 3 []) (RequestError ''socket hang up'' 5)"
  let ?envs = "\<lambda>k :: nat. two_request_env ?A ?B"
  let ?wps = "[makeRequest ?cfg [] GET None (ResponseEnd 200 3 []),
               makeRequest ?cfg [] GET None (RequestError ''socket hang up'' 5)]"
  let ?ps = "[makeRequest ?cfg [] GET None ?A, makeRequest ?cfg [] GET None ?B]"
  note inst = sweep_results_in_order_without_leakage [of ?T ?url ?W ?envs]
  have draws: "\<forall>t\<in>set (ticks ?W). 0 \<le> random_draw t \<and> random_draw t \<le> 1 - 1 / 2 ^ 53"
    by (simp add: two_request_warmup_env_def)
  have ends: "\<exists>t\<in>set (ticks ?W).
                startTime ?W + warmupDuration (config ?T) * 1000 \<le> now_cond t"
    by (simp add: two_request_warmup_env_def new_LoadTester_def cli_options_def)
  from inst have third:
    "(\<forall>t\<in>set (ticks ?W). 0 \<le> random_draw t \<and> random_draw t \<le> 1 - 1 / 2 ^ 53)
         \<and> (\<exists>t\<in>set (ticks ?W).
                startTime ?W + warmupDuration (config ?T) * 1000 \<le> now_cond t)
       \<longrightarrow> (\<exists>wps. warmupPromises ?cfg ?W = Inr wps)"
    by (elim conjE)
  have "\<exists>wps. warmupPromises ?cfg ?W = Inr wps"
    using third draws ends by (intro mp [OF third] conjI)
  then obtain wps where wexists: "warmupPromises ?cfg ?W = Inr wps"
    by (elim exE) (rule that)
  have "warmupPromises ?cfg ?W = Inr ?wps"
    by (rule warmupPromises_two) (simp_all add: new_LoadTester_def cli_options_def)
  then have wp: "warmupPromises ?cfg ?W = Inr ?wps" using wexists by simp
  have la: "list_all (\<lambda>t. 0 \<le> random_draw t \<and> random_draw t \<le> 1 - 1 / 2 ^ 53) (ticks ?W)"
    using draws by (simp only: list_all_iff)
  have le: "list_ex (\<lambda>t. 1000 + 180 * 1000 \<le> now_cond t) (ticks ?W)"
    by (simp add: two_request_warmup_env_def)
  have word: "sort (completion ?W) = [0..<length ?wps]"
    by (simp add: two_request_warmup_env_def upt_rec)
  have wnp: "Pending \<notin> set ?wps" by simp
  have wd: "warmupDuration (config ?T) = 180"
    by (simp add: new_LoadTester_def cli_options_def)
  from inst have second: "warmupPromises ?cfg ?W = Inr ?wps
          \<and> sort (completion ?W) = [0..<length ?wps] \<and> Pending \<notin> set ?wps \<longrightarrow>
        runWarmup ?S ?W
          = Inr (?S, \<lparr> warmupTotal = length ?wps,
                   actualWarmupTPS =
                     js_div (Num (real (length ?wps))) (Num (warmupDuration (config ?T))),
                   warmupErrorRate =
                     js_mul (js_div (Num (real (length (filter failed ?wps))))
                               (Num (real (length ?wps)))) (Num 100) \<rparr>)
        \<and> ((\<forall>k<length tpsLevels. \<exists>run ps.
                requestPromises ?cfg (real (tpsLevels ! k)) (?envs k) = Inr (run, ps)
                \<and> sort (completion (?envs k)) = [0..<length ps] \<and> Pending \<notin> set ps)
             \<longrightarrow> (\<exists>st' rs. runFullBenchmark ?T ?url ?W ?envs = Inr (st', rs)))"
    by (elim conjE allE [of _ ?wps])
  have warm: "runWarmup ?S ?W
          = Inr (?S, \<lparr> warmupTotal = length ?wps,
                   actualWarmupTPS =
                     js_div (Num (real (length ?wps))) (Num (warmupDuration (config ?T))),
                   warmupErrorRate =
                     js_mul (js_div (Num (real (length (filter failed ?wps))))
                               (Num (real (length ?wps)))) (Num 100) \<rparr>)"
    and phases_imp: "(\<forall>k<length tpsLevels. \<exists>run ps.
                requestPromises ?cfg (real (tpsLevels ! k)) (?envs k) = Inr (run, ps)
                \<and> sort (completion (?envs k)) = [0..<length ps] \<and> Pending \<notin> set ps)
             \<longrightarrow> (\<exists>st' rs. runFullBenchmark ?T ?url ?W ?envs = Inr (st', rs))"
    using second wp word wnp by blast+
  have warm_report: "map_sum id snd (runWarmup ?S ?W)
     = Inr \<lparr> warmupTotal = 2, actualWarmupTPS = Num (1 / 90), warmupErrorRate = Num 50 \<rparr>"
    unfolding warm using wd by simp
  have lv: "\<forall>tps\<in>set tpsLevels. 5 \<le> tps" by (simp add: tpsLevels_def)
  have ord: "sort (completion (two_request_env ?A ?B)) = [0..<length ?ps]"
    by (simp add: two_request_env_def upt_rec)
  have np: "Pending \<notin> set ?ps" by simp
  have phases: "\<forall>k<length tpsLevels. \<exists>run ps.
                requestPromises ?cfg (real (tpsLevels ! k)) (?envs k) = Inr (run, ps)
                \<and> sort (completion (?envs k)) = [0..<length ps] \<and> Pending \<notin> set ps"
  proof (intro allI impI)
    fix k assume "k < length tpsLevels"
    then have "5 \<le> tpsLevels ! k" using lv nth_mem by blast
    then have "5 \<le> real (tpsLevels ! k)" by simp
    then have "requestPromises ?cfg (real (tpsLevels ! k)) (two_request_env ?A ?B) = Inr (True, ?ps)"
      by (rule requestPromises_two) (simp add: new_LoadTester_def cli_options_def)
    then show "\<exists>run ps.
                requestPromises ?cfg (real (tpsLevels ! k)) (?envs k) = Inr (run, ps)
                \<and> sort (completion (?envs k)) = [0..<length ps] \<and> Pending \<notin> set ps"
      using ord np by (intro exI [of _ True] exI [of _ ?ps] conjI)
  qed
  from phases_imp phases
  have "\<exists>st' rs. runFullBenchmark ?T ?url ?W ?envs = Inr (st', rs)" by (rule mp)
  then obtain st2 rs where
    run: "runFullBenchmark ?T ?url ?W ?envs = Inr (st2, rs)"
    by (elim exE) (rule that)
  from inst have first: "\<forall>st' rs. runFullBenchmark ?T ?url ?W ?envs = Inr (st', rs) \<longrightarrow>
      (\<exists>report new.
           runWarmup ?S ?W = Inr (?S, report)
           \<and> rs = results st' \<and> rs = results ?T @ new
           \<and> config st' = ?cfg
           \<and> length new = length tpsLevels
           \<and> map targetTPS new = [5, 10, 15, 30, 40, 100, 1000]
           \<and> sorted (map targetTPS new)
           \<and> (\<forall>k<length tpsLevels. \<forall>fresh. config fresh = ?cfg \<longrightarrow>
                 map_sum id snd
                   (runTest fresh (real (tpsLevels ! k)) (show_nat (tpsLevels ! k) @ ''TPS'')
                      (?envs k))
                 = Inr (new ! k)))"
    by (elim conjE)
  from first [rule_format, OF run] obtain new where
    app: "rs = results ?T @ new"
    and len: "length new = length tpsLevels"
    and order: "map targetTPS new = [5, 10, 15, 30, 40, 100, 1000]"
    and each: "\<forall>k<length tpsLevels. \<forall>fresh. config fresh = ?cfg \<longrightarrow>
                 map_sum id snd
                   (runTest fresh (real (tpsLevels ! k)) (show_nat (tpsLevels ! k) @ ''TPS'')
                      (?envs k))
                 = Inr (new ! k)"
    by (elim exE conjE) (rule that; assumption)
  have rs: "rs = new" using app by (simp add: new_LoadTester_def)
  have six: "map_sum id snd (runTest ?S 1000 (show_nat 1000 @ ''TPS'') (two_request_env ?A ?B))
               = Inr (new ! 6)"
    using each [rule_format, of 6 ?S] by (simp add: tpsLevels_def)
  have rp: "requestPromises (config ?S) 1000 (two_request_env ?A ?B) = Inr (True, ?ps)"
    using requestPromises_two [of 1000 ?cfg ?A ?B]
    by (simp add: new_LoadTester_def cli_options_def)
  obtain s' r where ret: "runTest ?S 1000 (show_nat 1000 @ ''TPS'') (two_request_env ?A ?B)
                            = Inr (s', r)"
    and tot: "totalRequests r = length ?ps"
    and err: "resultErrorCount r = length (filter failed ?ps)"
    by (rule runTest_returns [OF rp ord np])
  have "new ! 6 = r" using six ret by simp
  then have "totalRequests (new ! 6) = 2 \<and> resultErrorCount (new ! 6) = 1"
    using tot err by simp
  then have last: "\<exists>st' rs. runFullBenchmark ?T ?url ?W ?envs = Inr (st', rs)
         \<and> length rs = 7
         \<and> map targetTPS rs = [5, 10, 15, 30, 40, 100, 1000]
         \<and> totalRequests (rs ! 6) = 2 \<and> resultErrorCount (rs ! 6) = 1"
    using run rs len order by (simp add: tpsLevels_def)
  have wp_val: "warmupPromises ?cfg ?W
     = Inr [Fulfilled \<lparr> statusCode = 200, responseTime = 3, body = [], success = True \<rparr>,
            Rejected (Failure ''socket hang up'' 5)]"
    unfolding wp by simp
  show ?thesis using wp_val la le warm_report last by (intro conjI)
qed

end
